theory Spec2Isabelle
  imports Complex_Main "HOL-Library.Word"
begin

unbundle bit_operations_syntax

section \<open>Shared types\<close>

type_synonym byte = "8 word"

text \<open>
  A Go run-time panic is a value of the model: every function of the source that can
  panic returns \<open>panic + 'a\<close>, with \<open>Inl\<close> for the panic.
\<close>

datatype panic =
    Panic string
  | SliceBoundsOutOfRange nat nat nat
  | IndexOutOfRange nat nat

section \<open>Package parse: the parser registry\<close>

text \<open>
  \<^verbatim>\<open>parsers = make(map[string]NewParserFunc)\<close>. A Go function value may be nil, so the
  argument of \<open>Register\<close> is an option. The mutex is not modelled: the calls are taken
  one at a time.
\<close>

type_synonym 'p NewParserFunc = "int \<Rightarrow> int \<Rightarrow> 'p"

type_synonym 'p parsers = "string \<rightharpoonup> 'p NewParserFunc"

datatype error = Errorf string string

definition Register ::
  "'p parsers \<Rightarrow> string \<Rightarrow> 'p NewParserFunc option \<Rightarrow> panic + 'p parsers" where
  "Register parsers name parserFn =
     (case parserFn of
        None \<Rightarrow> Inl (Panic ''parser: new parser func is nil'')
      | Some fn \<Rightarrow>
          (case parsers name of
             Some _ \<Rightarrow> Inl (Panic (''parser: parser already registered ('' @ name @ '')''))
           | None \<Rightarrow> Inr (parsers(name \<mapsto> fn))))"

text \<open>
  \<^verbatim>\<open>fmt.Errorf("invalid message type: %q\n", name)\<close>: the error keeps the format and its
  argument.
\<close>

definition NewParser :: "'p parsers \<Rightarrow> string \<Rightarrow> int \<Rightarrow> int \<Rightarrow> error + 'p" where
  "NewParser parsers name symbolLength decimation =
     (case parsers name of
        Some parserFn \<Rightarrow> Inr (parserFn symbolLength decimation)
      | None \<Rightarrow> Inl (Errorf ''invalid message type: %q\<newline>'' name))"

section \<open>Package parse: the filter chain\<close>

text \<open>
  A \<open>MessageFilter\<close> is an object with one method, \<open>Filter(Message) bool\<close>. \<open>Match\<close>
  returns its verdict together with the filters whose \<open>Filter\<close> method it has called,
  in the order of the calls, so that what the loop evaluates can be stated.
\<close>

type_synonym 'm MessageFilter = "'m \<Rightarrow> bool"

type_synonym 'm FilterChain = "'m MessageFilter list"

definition Add :: "'m FilterChain \<Rightarrow> 'm MessageFilter \<Rightarrow> 'm FilterChain" where
  "Add fc flt = fc @ [flt]"

fun Match_range ::
  "'m FilterChain \<Rightarrow> 'm \<Rightarrow> 'm MessageFilter list \<Rightarrow> bool \<times> 'm MessageFilter list" where
  "Match_range [] msg called = (True, called)"
| "Match_range (flt # fc) msg called =
     (if \<not> flt msg then (False, called @ [flt])
      else Match_range fc msg (called @ [flt]))"

definition Match :: "'m FilterChain \<Rightarrow> 'm \<Rightarrow> bool \<times> 'm MessageFilter list" where
  "Match fc msg = (if length fc = 0 then (True, []) else Match_range fc msg [])"

section \<open>Package strconv and fmt: the conversions the source calls\<close>

text \<open>
  \<open>strconv.FormatUint(n, base)\<close> for \<open>2 \<le> base \<le> 36\<close>: the digits of \<open>n\<close>, most
  significant first, lower case. The source calls it with bases 10 and 16, and
  \<open>fmt\<close> uses the same digits for the verbs \<open>%b\<close>, \<open>%d\<close> and \<open>%X\<close>; no other base
  occurs.
\<close>

definition digit_char :: "nat \<Rightarrow> char" where
  "digit_char d = ''0123456789abcdefghijklmnopqrstuvwxyz'' ! d"

function FormatUint :: "nat \<Rightarrow> nat \<Rightarrow> string" where
  "FormatUint n base =
     (if base < 2 then []
      else if n < base then [digit_char n]
      else FormatUint (n div base) base @ [digit_char (n mod base)])"
  by pat_completeness auto
termination
  by (relation "measure (\<lambda>(n, base). n)") auto

declare FormatUint.simps [simp del]

definition pad_left :: "char \<Rightarrow> nat \<Rightarrow> string \<Rightarrow> string" where
  "pad_left c width s = replicate (width - length s) c @ s"

text \<open>\<^verbatim>\<open>fmt.Sprintf("%08b", b)\<close> for a byte \<open>b\<close>.\<close>

definition Sprintf_08b :: "byte \<Rightarrow> string" where
  "Sprintf_08b b = pad_left CHR ''0'' 8 (FormatUint (unat b) 2)"

text \<open>
  \<open>strconv.ParseUint(s, base, bitSize)\<close> for \<open>2 \<le> base \<le> 36\<close> and
  \<open>1 \<le> bitSize \<le> 64\<close>, as the source calls it. It returns a value and an error; the
  source drops the error and keeps the value, which is 0 after a syntax error and
  \<open>2 ^ bitSize - 1\<close> after a range error. The accumulator is a \<open>uint64\<close>: the
  wrap-around is written out.
\<close>

datatype NumError = ErrSyntax | ErrRange

definition digit_val :: "char \<Rightarrow> nat option" where
  "digit_val c =
     (let k = (of_char c :: nat) in
      if 48 \<le> k \<and> k \<le> 57 then Some (k - 48)
      else if 97 \<le> k \<and> k \<le> 122 then Some (k - 97 + 10)
      else if 65 \<le> k \<and> k \<le> 90 then Some (k - 65 + 10)
      else None)"

fun ParseUint_loop :: "nat \<Rightarrow> nat \<Rightarrow> nat \<Rightarrow> string \<Rightarrow> nat \<times> NumError option" where
  "ParseUint_loop base maxVal n [] = (n, None)"
| "ParseUint_loop base maxVal n (c # cs) =
     (case digit_val c of
        None \<Rightarrow> (0, Some ErrSyntax)
      | Some d \<Rightarrow>
          if d \<ge> base then (0, Some ErrSyntax)
          else if n \<ge> (2 ^ 64 - 1) div base + 1 then (maxVal, Some ErrRange)
          else
            (let n' = (n * base) mod 2 ^ 64;
                 n1 = (n' + d) mod 2 ^ 64
             in if n1 < n' \<or> n1 > maxVal then (maxVal, Some ErrRange)
                else ParseUint_loop base maxVal n1 cs))"

definition ParseUint :: "string \<Rightarrow> nat \<Rightarrow> nat \<Rightarrow> nat \<times> NumError option" where
  "ParseUint s base bitSize =
     (if s = [] then (0, Some ErrSyntax)
      else ParseUint_loop base (2 ^ bitSize - 1) 0 s)"

text \<open>\<open>strconv.FormatInt(i, base)\<close>: a minus sign before the digits of a negative value.\<close>

definition FormatInt :: "int \<Rightarrow> nat \<Rightarrow> string" where
  "FormatInt i base =
     (if i < 0 then CHR ''-'' # FormatUint (nat (- i)) base else FormatUint (nat i) base)"

text \<open>The verb \<open>%X\<close> writes the hexadecimal digits \<open>a\<close> to \<open>f\<close> in upper case.\<close>

definition to_upper :: "char \<Rightarrow> char" where
  "to_upper c =
     (if c = CHR ''a'' then CHR ''A'' else if c = CHR ''b'' then CHR ''B''
      else if c = CHR ''c'' then CHR ''C'' else if c = CHR ''d'' then CHR ''D''
      else if c = CHR ''e'' then CHR ''E'' else if c = CHR ''f'' then CHR ''F''
      else c)"

text \<open>
  A \<open>float64\<close> is an infinity, a NaN or a finite value, which is kept by its exact
  value, a real number (a negative zero is not told from zero). \<open>strconv.FormatFloat(f, 'f',
  prec, 64)\<close> writes the three special values by name and a finite value with \<open>prec\<close>
  digits after the point, rounded to the nearest, a tie to the even digit.
\<close>

datatype float64 = NegInf | PosInf | NaN | Finite real

definition round_half_even :: "real \<Rightarrow> int" where
  "round_half_even x =
     (let f = \<lfloor>x\<rfloor>; r = x - of_int f
      in if r < 1 / 2 then f else if 1 / 2 < r then f + 1 else if even f then f else f + 1)"

definition FormatFloat_f :: "real \<Rightarrow> nat \<Rightarrow> string" where
  "FormatFloat_f x prec =
     (let n = nat (round_half_even (\<bar>x\<bar> * 10 ^ prec))
      in (if x < 0 then ''-'' else [])
         @ FormatUint (n div 10 ^ prec) 10
         @ (if prec = 0 then []
            else CHR ''.'' # pad_left CHR ''0'' prec (FormatUint (n mod 10 ^ prec) 10)))"

definition FormatFloat :: "float64 \<Rightarrow> nat \<Rightarrow> string" where
  "FormatFloat f prec =
     (case f of
        NaN \<Rightarrow> ''NaN''
      | PosInf \<Rightarrow> ''+Inf''
      | NegInf \<Rightarrow> ''-Inf''
      | Finite x \<Rightarrow> FormatFloat_f x prec)"

text \<open>\<open>math.IsInf(f, sign)\<close>.\<close>

definition IsInf :: "float64 \<Rightarrow> int \<Rightarrow> bool" where
  "IsInf f sign = (sign \<ge> 0 \<and> f = PosInf \<or> sign \<le> 0 \<and> f = NegInf)"

section \<open>Package parse: Data\<close>

record Data =
  Bits :: string
  Bytes :: "byte list"

text \<open>
  A slice expression \<open>s[lo:hi]\<close> of a string panics unless \<open>lo \<le> hi \<le> len(s)\<close>.
  For a byte slice the bound is the capacity; the source slices \<open>data.Bytes\<close> only
  after it has checked the length, so the length is the bound here too.
\<close>

definition slice_expr :: "'a list \<Rightarrow> nat \<Rightarrow> nat \<Rightarrow> panic + 'a list" where
  "slice_expr s lo hi =
     (if hi \<le> length s \<and> lo \<le> hi then Inr (take (hi - lo) (drop lo s))
      else Inl (SliceBoundsOutOfRange lo hi (length s)))"

fun NewDataFromBytes_range :: "byte list \<Rightarrow> string \<Rightarrow> string" where
  "NewDataFromBytes_range [] bits = bits"
| "NewDataFromBytes_range (b # data) bits =
     NewDataFromBytes_range data (bits @ Sprintf_08b b)"

definition NewDataFromBytes :: "byte list \<Rightarrow> Data" where
  "NewDataFromBytes data =
     \<lparr>Bits = NewDataFromBytes_range data [], Bytes = data\<rparr>"

text \<open>
  The loop of \<open>NewDataFromBits\<close>: \<open>idx\<close> goes up by 8 while it is below the length
  of the bit string. Both the slice expression and the indexed store can panic.
\<close>

function NewDataFromBits_loop :: "string \<Rightarrow> nat \<Rightarrow> byte list \<Rightarrow> panic + byte list" where
  "NewDataFromBits_loop bits idx bytes =
     (if idx < length bits then
        (case slice_expr bits idx (idx + 8) of
           Inl e \<Rightarrow> Inl e
         | Inr s \<Rightarrow>
             (let b = fst (ParseUint s 2 8) in
              if idx div 8 < length bytes
              then NewDataFromBits_loop bits (idx + 8) (bytes[idx div 8 := of_nat b])
              else Inl (IndexOutOfRange (idx div 8) (length bytes))))
      else Inr bytes)"
  by pat_completeness auto
termination
  by (relation "measure (\<lambda>(bits, idx, bytes). length bits - idx)") auto

declare NewDataFromBits_loop.simps [simp del]

definition NewDataFromBits :: "string \<Rightarrow> panic + Data" where
  "NewDataFromBits data =
     (case NewDataFromBits_loop data 0 (replicate ((length data + 7) div 8) 0) of
        Inl e \<Rightarrow> Inl e
      | Inr bytes \<Rightarrow> Inr \<lparr>Bits = data, Bytes = bytes\<rparr>)"

section \<open>Package parse: LogMessage and RSSI\<close>

text \<open>
  \<open>Timestamp\<close> wraps a \<open>time.Time\<close> and the embedded \<open>Message\<close> is an interface value:
  the type of the time, its \<open>Format\<close> method and the \<open>Record\<close> method of the message
  are parameters. \<open>Offset\<close> is an \<open>int64\<close> and \<open>Length\<close> an \<open>int\<close>; \<open>Record\<close> only
  prints them.
\<close>

type_synonym RSSI = float64

record ('t, 'm) LogMessage =
  Time :: 't
  Offset :: int
  Length :: int
  RSSI :: RSSI
  Message :: 'm

definition RFC3339Nano :: string where
  "RFC3339Nano = ''2006-01-02T15:04:05.999999999Z07:00''"

definition RSSI_String :: "RSSI \<Rightarrow> string" where
  "RSSI_String rssi = FormatFloat rssi 3"

definition LogMessage_Record ::
  "('t \<Rightarrow> string \<Rightarrow> string) \<Rightarrow> ('m \<Rightarrow> string list) \<Rightarrow> ('t, 'm) LogMessage \<Rightarrow> string list" where
  "LogMessage_Record Format Message_Record msg =
     (let r = [];
          r = r @ [Format (Time msg) RFC3339Nano];
          r = r @ [FormatInt (Offset msg) 10];
          r = r @ [FormatInt (Length msg) 10];
          r = r @ [RSSI_String (RSSI msg)];
          r = r @ Message_Record (Message msg)
      in r)"

text \<open>
  \<^verbatim>\<open>const QuantNoise8bit = -48.1647993062\<close>, which the source comments as
  \<^verbatim>\<open>20 * Log10(2^8)\<close>. \<open>Sanitize\<close> has a pointer receiver: it returns the new value of
  the \<open>RSSI\<close>.
\<close>

definition QuantNoise8bit :: real where
  "QuantNoise8bit = - (481647993062 / 10000000000)"

definition Sanitize :: "RSSI \<Rightarrow> RSSI" where
  "Sanitize rssi = (if IsInf rssi (- 1) then Finite QuantNoise8bit else rssi)"

section \<open>Package scm: the Standard Consumption Message\<close>

record SCM =
  ID :: "32 word"
  Type :: "8 word"
  TamperPhy :: "8 word"
  TamperEnc :: "8 word"
  Consumption :: "32 word"
  ChecksumVal :: "16 word"

text \<open>
  \<open>NewSCM\<close> takes seven slices of the bit string, in this order; each can panic. The
  errors of \<open>ParseUint\<close> are dropped, as in the source.
\<close>

definition NewSCM :: "Data \<Rightarrow> panic + SCM" where
  "NewSCM data =
     (case slice_expr (Bits data) 21 23 of Inl e \<Rightarrow> Inl e | Inr id_hi \<Rightarrow>
      case slice_expr (Bits data) 56 80 of Inl e \<Rightarrow> Inl e | Inr id_lo \<Rightarrow>
      case slice_expr (Bits data) 26 30 of Inl e \<Rightarrow> Inl e | Inr type_bits \<Rightarrow>
      case slice_expr (Bits data) 24 26 of Inl e \<Rightarrow> Inl e | Inr phy_bits \<Rightarrow>
      case slice_expr (Bits data) 30 32 of Inl e \<Rightarrow> Inl e | Inr enc_bits \<Rightarrow>
      case slice_expr (Bits data) 32 56 of Inl e \<Rightarrow> Inl e | Inr consumption_bits \<Rightarrow>
      case slice_expr (Bits data) 80 96 of Inl e \<Rightarrow> Inl e | Inr checksum_bits \<Rightarrow>
        (let ertid = fst (ParseUint (id_hi @ id_lo) 2 26);
             erttype = fst (ParseUint type_bits 2 4);
             tamperphy = fst (ParseUint phy_bits 2 2);
             tamperenc = fst (ParseUint enc_bits 2 2);
             consumption = fst (ParseUint consumption_bits 2 24);
             checksum = fst (ParseUint checksum_bits 2 16)
         in Inr \<lparr>ID = of_nat ertid, Type = of_nat erttype, TamperPhy = of_nat tamperphy,
                  TamperEnc = of_nat tamperenc, Consumption = of_nat consumption,
                  ChecksumVal = of_nat checksum\<rparr>))"

definition MsgType :: "SCM \<Rightarrow> string" where
  "MsgType scm = ''SCM''"

definition MeterID :: "SCM \<Rightarrow> 32 word" where
  "MeterID scm = ID scm"

definition MeterType :: "SCM \<Rightarrow> 8 word" where
  "MeterType scm = Type scm"

text \<open>\<open>binary.BigEndian.PutUint16\<close> into a fresh slice of two bytes.\<close>

definition Checksum :: "SCM \<Rightarrow> byte list" where
  "Checksum scm =
     (replicate 2 0)[0 := ucast (drop_bit 8 (ChecksumVal scm)), 1 := ucast (ChecksumVal scm)]"

text \<open>
  \<^verbatim>\<open>fmt.Sprintf("{ID:%8d Type:%2d Tamper:{Phy:%02X Enc:%02X} Consumption:%8d CRC:0x%04X}", ...)\<close>
  on the six fields, the expression that \<open>String\<close> both publishes and returns.
\<close>

definition Sprintf_SCM :: "SCM \<Rightarrow> string" where
  "Sprintf_SCM scm =
     ''{ID:'' @ pad_left CHR '' '' 8 (FormatUint (unat (ID scm)) 10)
     @ '' Type:'' @ pad_left CHR '' '' 2 (FormatUint (unat (Type scm)) 10)
     @ '' Tamper:{Phy:'' @ pad_left CHR ''0'' 2 (map to_upper (FormatUint (unat (TamperPhy scm)) 16))
     @ '' Enc:'' @ pad_left CHR ''0'' 2 (map to_upper (FormatUint (unat (TamperEnc scm)) 16))
     @ ''} Consumption:'' @ pad_left CHR '' '' 8 (FormatUint (unat (Consumption scm)) 10)
     @ '' CRC:0x'' @ pad_left CHR ''0'' 4 (map to_upper (FormatUint (unat (ChecksumVal scm)) 16))
     @ ''}''"

text \<open>
  \<open>String\<close> acts on the world outside the program before it returns. The calls that
  read files, write to the standard output or use the network are the effects, in the
  order of the calls; what the world answers to them is the record \<open>World\<close>.
\<close>

datatype effect =
    ReadFile string
  | LoadX509KeyPair string string
  | Println_Leaf
  | MQTT_Connect string string
  | MQTT_Publish string nat bool string
  | MQTT_Disconnect nat

record World =
  ReadFile_rootCA :: "string option"
  LoadX509KeyPair_err :: "string option"
  ParseCertificate_err :: "string option"
  Connect_err :: "string option"

record tls_Config =
  RootCAs :: "string list"
  InsecureSkipVerify :: bool

definition NewTLSConfig :: "World \<Rightarrow> effect list \<times> (panic + tls_Config)" where
  "NewTLSConfig w =
     (let certpool = (case ReadFile_rootCA w of None \<Rightarrow> [] | Some pemCerts \<Rightarrow> [pemCerts]);
          fx = [ReadFile ''rootCA.pem'',
                LoadX509KeyPair ''rtlsdr.certificate.crt'' ''rtlsdr.private.key'']
      in case LoadX509KeyPair_err w of
           Some err \<Rightarrow> (fx, Inl (Panic err))
         | None \<Rightarrow>
             (case ParseCertificate_err w of
                Some err \<Rightarrow> (fx, Inl (Panic err))
              | None \<Rightarrow>
                  (fx @ [Println_Leaf],
                   Inr \<lparr>RootCAs = certpool, InsecureSkipVerify = True\<rparr>)))"

definition String :: "World \<Rightarrow> SCM \<Rightarrow> effect list \<times> (panic + string)" where
  "String w scm =
     (case NewTLSConfig w of
        (fx, Inl e) \<Rightarrow> (fx, Inl e)
      | (fx, Inr tlsconfig) \<Rightarrow>
          (let fx = fx @ [MQTT_Connect ''ssl://data.iot.us-west-2.amazonaws.com:8883'' ''rtlsdr'']
           in case Connect_err w of
                Some err \<Rightarrow> (fx, Inl (Panic err))
              | None \<Rightarrow>
                  (fx @ [MQTT_Publish ''/rtlsdr'' 0 False (Sprintf_SCM scm), MQTT_Disconnect 250],
                   Inr (Sprintf_SCM scm))))"

definition Record :: "SCM \<Rightarrow> string list" where
  "Record scm =
     (let r = [];
          r = r @ [FormatUint (unat (ID scm)) 10];
          r = r @ [FormatUint (unat (Type scm)) 10];
          r = r @ [''0x'' @ FormatUint (unat (TamperPhy scm)) 16];
          r = r @ [''0x'' @ FormatUint (unat (TamperEnc scm)) 16];
          r = r @ [FormatUint (unat (Consumption scm)) 10];
          r = r @ [''0x'' @ FormatUint (unat (ChecksumVal scm)) 16]
      in r)"

section \<open>Package scm: the parser\<close>

text \<open>
  \<open>Parser\<close> embeds a \<open>decode.Decoder\<close> and a \<open>crc.CRC\<close>. Neither package is among the
  sources: the two methods \<open>Parse\<close> calls, \<open>Decoder.Slice\<close> and \<open>CRC.Checksum\<close>,
  are fields of the record, so that every property of \<open>Parse\<close> holds for any slicer
  and any checksum.
\<close>

record Parser =
  Decoder_Slice :: "int list \<Rightarrow> byte list list"
  CRC_Checksum :: "byte list \<Rightarrow> 16 word"

text \<open>\<open>seen[s]\<close> on a \<open>map[string]bool\<close>: false for a key that is absent.\<close>

definition seen_at :: "(byte list \<rightharpoonup> bool) \<Rightarrow> byte list \<Rightarrow> bool" where
  "seen_at seen s = (case seen s of None \<Rightarrow> False | Some b \<Rightarrow> b)"

text \<open>
  The loop of \<open>Parse\<close> over the packets of \<open>Slice\<close>, with the set \<open>seen\<close> and the
  messages appended so far; each \<open>continue\<close> is a recursive call.
\<close>

fun Parse_range ::
  "Parser \<Rightarrow> byte list list \<Rightarrow> (byte list \<rightharpoonup> bool) \<Rightarrow> SCM list \<Rightarrow> panic + SCM list" where
  "Parse_range p [] seen msgs = Inr msgs"
| "Parse_range p (pkt # pkts) seen msgs =
     (if seen_at seen pkt then Parse_range p pkts seen msgs
      else
        (let seen' = seen(pkt \<mapsto> True);
             data = NewDataFromBytes pkt
         in if length (Bytes data) \<noteq> 12 then Parse_range p pkts seen' msgs
            else
              (case slice_expr (Bytes data) 2 12 of
                 Inl e \<Rightarrow> Inl e
               | Inr payload \<Rightarrow>
                   if CRC_Checksum p payload \<noteq> 0 then Parse_range p pkts seen' msgs
                   else
                     (case NewSCM data of
                        Inl e \<Rightarrow> Inl e
                      | Inr scm \<Rightarrow>
                          if ID scm = 0 then Parse_range p pkts seen' msgs
                          else Parse_range p pkts seen' (msgs @ [scm])))))"

definition Parse :: "Parser \<Rightarrow> int list \<Rightarrow> panic + SCM list" where
  "Parse p indices = Parse_range p (Decoder_Slice p indices) Map.empty []"

text \<open>
  The same loop once more, which also returns the \<open>Data\<close> values on which it has
  called \<open>NewSCM\<close>, in the order of the calls; a call that panics is recorded too.
\<close>

fun Parse_range_calls ::
  "Parser \<Rightarrow> byte list list \<Rightarrow> (byte list \<rightharpoonup> bool) \<Rightarrow> SCM list \<Rightarrow> Data list
     \<Rightarrow> Data list \<times> (panic + SCM list)" where
  "Parse_range_calls p [] seen msgs calls = (calls, Inr msgs)"
| "Parse_range_calls p (pkt # pkts) seen msgs calls =
     (if seen_at seen pkt then Parse_range_calls p pkts seen msgs calls
      else
        (let seen' = seen(pkt \<mapsto> True);
             data = NewDataFromBytes pkt
         in if length (Bytes data) \<noteq> 12 then Parse_range_calls p pkts seen' msgs calls
            else
              (case slice_expr (Bytes data) 2 12 of
                 Inl e \<Rightarrow> (calls, Inl e)
               | Inr payload \<Rightarrow>
                   if CRC_Checksum p payload \<noteq> 0
                   then Parse_range_calls p pkts seen' msgs calls
                   else
                     (case NewSCM data of
                        Inl e \<Rightarrow> (calls @ [data], Inl e)
                      | Inr scm \<Rightarrow>
                          if ID scm = 0
                          then Parse_range_calls p pkts seen' msgs (calls @ [data])
                          else Parse_range_calls p pkts seen' (msgs @ [scm])
                                 (calls @ [data])))))"

definition Parse_calls :: "Parser \<Rightarrow> int list \<Rightarrow> Data list \<times> (panic + SCM list)" where
  "Parse_calls p indices = Parse_range_calls p (Decoder_Slice p indices) Map.empty [] []"

text \<open>
  Modelled from the spec: the checksum engine \<open>crc.NewCRC("BCH", 0, 0x6F63, 0)\<close> of
  package \<open>crc\<close>, which is not among the sources. The spec gives a 16-bit BCH checksum
  with polynomial 0x6F63, initial value 0 and final xor 0; this is the 16-bit cyclic
  redundancy check with these parameters, most significant bit first. It is used for
  the concrete parsers of the examples only.
\<close>

definition BCH_shift :: "16 word \<Rightarrow> 16 word" where
  "BCH_shift crc = (if bit crc 15 then push_bit 1 crc XOR 0x6F63 else push_bit 1 crc)"

definition BCH_byte :: "16 word \<Rightarrow> byte \<Rightarrow> 16 word" where
  "BCH_byte crc b = (BCH_shift ^^ 8) (crc XOR push_bit 8 (ucast b))"

definition BCH_Checksum :: "byte list \<Rightarrow> 16 word" where
  "BCH_Checksum data = foldl BCH_byte 0 data"

text \<open>
  \<open>scm.NewParser\<close>: the decoder of \<open>decode.NewDecoder(NewPacketConfig(chipLength))\<close> is
  a parameter, by its \<open>Slice\<close> method.
\<close>

definition scm_NewParser :: "(int list \<Rightarrow> byte list list) \<Rightarrow> Parser" where
  "scm_NewParser decoder_slice =
     \<lparr>Decoder_Slice = decoder_slice, CRC_Checksum = BCH_Checksum\<rparr>"

section \<open>Definitions used to state the properties\<close>

text \<open>The integer value of a string of binary digits, most significant first.\<close>

definition bit_val :: "char \<Rightarrow> nat" where
  "bit_val c = (if c = CHR ''1'' then 1 else 0)"

definition bin_val :: "nat \<Rightarrow> string \<Rightarrow> nat" where
  "bin_val acc s = foldl (\<lambda>a c. 2 * a + bit_val c) acc s"

text \<open>
  What \<open>Parse\<close> makes of one packet, stated from the specification: a message when the
  packet has the wire length of 12 bytes, its payload checksum is zero and the decoded
  meter ID is not the sentinel 0; nothing otherwise.
\<close>

definition accepted :: "Parser \<Rightarrow> byte list \<Rightarrow> SCM option" where
  "accepted p pkt =
     (if length pkt = 12 \<and> CRC_Checksum p (take 10 (drop 2 pkt)) = 0 then
        (case NewSCM (NewDataFromBytes pkt) of
           Inl e \<Rightarrow> None
         | Inr scm \<Rightarrow> if ID scm \<noteq> 0 then Some scm else None)
      else None)"

text \<open>The elements of a list that are not in \<open>S\<close>, each at its first occurrence.\<close>

fun keep_unseen :: "'a set \<Rightarrow> 'a list \<Rightarrow> 'a list" where
  "keep_unseen S [] = []"
| "keep_unseen S (x # xs) =
     (if x \<in> S then keep_unseen S xs else x # keep_unseen (insert x S) xs)"

definition first_occurrences :: "'a list \<Rightarrow> 'a list" where
  "first_occurrences xs = keep_unseen {} xs"

section \<open>Example inputs\<close>

text \<open>
  A packet with a valid checksum (meter 17970262, type 7, consumption 12345), and a
  slicer that returns it at the offsets 0 and 1, the same packet with one payload bit
  flipped at the offsets 2 and 3, twelve zero bytes (valid checksum, meter ID 0) at the
  offsets 4 and 5, and a packet of eleven bytes anywhere else.
\<close>

definition example_packet :: "byte list" where
  "example_packet = [0xF9, 0x53, 0x02, 0x5C, 0x00, 0x30, 0x39, 0x12, 0x34, 0x56, 0xC8, 0xBA]"

definition example_slicer :: "int list \<Rightarrow> byte list list" where
  "example_slicer indices =
     map (\<lambda>i. if i < 2 then example_packet
              else if i < 4 then example_packet[11 := 0xBB]
              else if i < 6 then replicate 12 0
              else take 11 example_packet) indices"

text \<open>
  The message of the example packet, a world in which every call of \<open>String\<close>
  succeeds and one in which the key pair is missing, and a log message with an
  unsanitised reading of negative infinity.
\<close>

definition example_SCM :: SCM where
  "example_SCM = \<lparr>ID = 17970262, Type = 7, TamperPhy = 1, TamperEnc = 0, Consumption = 12345,
                  ChecksumVal = 0xC8BA\<rparr>"

definition example_World :: World where
  "example_World = \<lparr>ReadFile_rootCA = Some ''pem'', LoadX509KeyPair_err = None,
                    ParseCertificate_err = None, Connect_err = None\<rparr>"

definition example_World_no_key :: World where
  "example_World_no_key = example_World\<lparr>LoadX509KeyPair_err :=
     Some ''open rtlsdr.certificate.crt: no such file or directory''\<rparr>"

definition example_Format :: "nat \<Rightarrow> string \<Rightarrow> string" where
  "example_Format t layout = layout"

definition example_LogMessage :: "(nat, SCM) LogMessage" where
  "example_LogMessage = \<lparr>Time = 0, Offset = 4096, Length = 12, RSSI = NegInf,
                          Message = example_SCM\<rparr>"

definition example_parser :: Parser where
  "example_parser = scm_NewParser example_slicer"

section \<open>The registry: properties\<close>

text \<open>
  C6. \<open>Register\<close> panics when the constructor is nil or the name is already registered,
  and otherwise adds the mapping. \<open>NewParser\<close> returns what the registered constructor
  returns, and an error that names the protocol when the name is not registered.
\<close>

theorem Register_NewParser:
  "Register parsers name None = Inl (Panic ''parser: new parser func is nil'')
   \<and> (parsers name \<noteq> None \<longrightarrow>
        (\<exists>msg. Register parsers name parserFn = Inl (Panic msg)))
   \<and> (parsers name = None \<longrightarrow>
        Register parsers name (Some fn) = Inr (parsers(name \<mapsto> fn)))
   \<and> (parsers name = Some fn' \<longrightarrow>
        NewParser parsers name symbolLength decimation = Inr (fn' symbolLength decimation))
   \<and> (parsers name = None \<longrightarrow>
        NewParser parsers name symbolLength decimation
          = Inl (Errorf ''invalid message type: %q\<newline>'' name))"
  by (auto simp: Register_def NewParser_def split: option.splits)

theorem Register_NewParser_witness:
  "Register (Map.empty :: int parsers) ''scm'' None
     = Inl (Panic ''parser: new parser func is nil'')
   \<and> (\<exists>msg. Register [''scm'' \<mapsto> (\<lambda>s d. s + d)] ''scm'' (Some (\<lambda>s d. s * d)) = Inl (Panic msg))
   \<and> Register (Map.empty :: int parsers) ''scm'' (Some (\<lambda>s d. s + d))
       = Inr [''scm'' \<mapsto> (\<lambda>s d. s + d)]
   \<and> NewParser [''scm'' \<mapsto> (\<lambda>s d. s + d)] ''scm'' 72 1 = Inr (73 :: int)
   \<and> NewParser (Map.empty :: int parsers) ''idm'' 72 1
       = Inl (Errorf ''invalid message type: %q\<newline>'' ''idm'')"
  using Register_NewParser [of "Map.empty :: int parsers" "''scm''" "Some (\<lambda>s d. s + d)"
      "\<lambda>s d. s + d" "\<lambda>s d. s + d" 72 1]
    Register_NewParser [of "[''scm'' \<mapsto> (\<lambda>s d. s + d)]" "''scm''" "Some (\<lambda>s d. s * d)"
      "\<lambda>s d. s + d" "\<lambda>s d. s + d" 72 1]
    Register_NewParser [of "Map.empty :: int parsers" "''idm''" None
      "\<lambda>s d. s + d" "\<lambda>s d. s + d" 72 1]
  by simp

section \<open>The filter chain: properties\<close>

lemma Match_range_eq:
  "Match_range fc msg called =
     ((\<forall>flt \<in> set fc. flt msg),
      called @ takeWhile (\<lambda>flt. flt msg) fc @ take 1 (dropWhile (\<lambda>flt. flt msg) fc))"
  by (induction fc arbitrary: called) auto

lemma foldl_Add: "foldl Add fc fs = fc @ fs"
  by (induction fs arbitrary: fc) (auto simp: Add_def)

text \<open>
  C8. \<open>Match\<close> accepts every message when the chain is empty. Otherwise it accepts if
  and only if every filter accepts; the filters it calls are those of the chain in the
  order in which \<open>Add\<close> appended them, up to and including the first one that rejects,
  and none after it.
\<close>

theorem Match_all_in_order:
  "Match [] msg = (True, [])
   \<and> fst (Match fc msg) = (\<forall>flt \<in> set fc. flt msg)
   \<and> snd (Match fc msg)
       = takeWhile (\<lambda>flt. flt msg) fc @ take 1 (dropWhile (\<lambda>flt. flt msg) fc)
   \<and> foldl Add [] fc = fc"
  by (simp add: Match_def Match_range_eq foldl_Add)

theorem Match_all_in_order_witness:
  "Match [] (''SCM'', 0 :: nat) = (True, [])
   \<and> fst (Match [\<lambda>m. fst m = ''SCM'', \<lambda>m. 0 < snd m, \<lambda>m. snd m < 5] (''SCM'', 0 :: nat)) = False
   \<and> snd (Match [\<lambda>m. fst m = ''SCM'', \<lambda>m. 0 < snd m, \<lambda>m. snd m < 5] (''SCM'', 0 :: nat))
       = [\<lambda>m. fst m = ''SCM'', \<lambda>m. 0 < snd m]
   \<and> fst (Match [\<lambda>m. fst m = ''SCM'', \<lambda>m. 0 < snd m, \<lambda>m. snd m < 5] (''SCM'', 3 :: nat)) = True"
  using Match_all_in_order [of "(''SCM'', 0 :: nat)"
      "[\<lambda>m. fst m = ''SCM'', \<lambda>m. 0 < snd m, \<lambda>m. snd m < 5]"]
    Match_all_in_order [of "(''SCM'', 3 :: nat)"
      "[\<lambda>m. fst m = ''SCM'', \<lambda>m. 0 < snd m, \<lambda>m. snd m < 5]"]
  by simp

section \<open>Data: properties\<close>

lemma replicate_numeral_Cons: "replicate (numeral k) x = x # replicate (pred_numeral k) x"
  by (simp add: numeral_eq_Suc)

lemma bin_val_simps [simp]:
  "bin_val acc [] = acc"
  "bin_val acc (c # s) = bin_val (2 * acc + bit_val c) s"
  by (simp_all add: bin_val_def)

lemma bin_val_append: "bin_val acc (s @ t) = bin_val (bin_val acc s) t"
  by (simp add: bin_val_def)

lemma bin_val_acc: "bin_val acc s = acc * 2 ^ length s + bin_val 0 s"
proof (induction s arbitrary: acc)
  case Nil
  then show ?case by simp
next
  case (Cons c s)
  show ?case
    using Cons.IH [of "2 * acc + bit_val c"] Cons.IH [of "bit_val c"]
    by (simp add: algebra_simps)
qed

lemma bin_val_mono: "acc \<le> bin_val acc s"
proof (induction s arbitrary: acc)
  case Nil
  then show ?case by simp
next
  case (Cons c s)
  have "acc \<le> 2 * acc + bit_val c" by simp
  also have "\<dots> \<le> bin_val (2 * acc + bit_val c) s" by (rule Cons.IH)
  finally show ?case by simp
qed

lemma digit_val_bits [simp]:
  "digit_val CHR ''0'' = Some 0" "digit_val CHR ''1'' = Some 1"
  by (simp_all add: digit_val_def)

lemma ParseUint_loop_bits:
  "set s \<subseteq> {CHR ''0'', CHR ''1''} \<Longrightarrow> bin_val acc s \<le> maxVal \<Longrightarrow> maxVal < 2 ^ 64 \<Longrightarrow>
     ParseUint_loop 2 maxVal acc s = (bin_val acc s, None)"
proof (induction s arbitrary: acc)
  case Nil
  then show ?case by simp
next
  case (Cons c s)
  let ?d = "bit_val c"
  let ?n1 = "2 * acc + ?d"
  have d: "digit_val c = Some ?d" "?d < 2"
    using Cons.prems(1) by (auto simp: bit_val_def)
  have le: "?n1 \<le> maxVal"
    using bin_val_mono [of ?n1 s] Cons.prems(2) by simp
  then have small: "?n1 < 2 ^ 64" "acc < 2 ^ 63"
    using Cons.prems(3) by simp_all
  have "ParseUint_loop 2 maxVal ?n1 s = (bin_val ?n1 s, None)"
    using Cons.prems by (intro Cons.IH) simp_all
  then show ?case
    using d le small by (simp add: Let_def mult.commute)
qed

lemma digit_char_bits: "d < 2 \<Longrightarrow> digit_char d \<in> {CHR ''0'', CHR ''1''} \<and> bit_val (digit_char d) = d"
  by (cases d) (auto simp: digit_char_def bit_val_def)

lemma FormatUint_2_bits: "set (FormatUint n 2) \<subseteq> {CHR ''0'', CHR ''1''}"
proof (induction n "2::nat" rule: FormatUint.induct)
  case (1 n)
  show ?case
  proof (cases "n < 2")
    case True
    then show ?thesis using digit_char_bits [of n] by (simp add: FormatUint.simps [of n])
  next
    case False
    then show ?thesis
      using 1 digit_char_bits [of "n mod 2"] by (simp add: FormatUint.simps [of n])
  qed
qed

lemma bin_val_FormatUint_2: "bin_val 0 (FormatUint n 2) = n"
proof (induction n "2::nat" rule: FormatUint.induct)
  case (1 n)
  show ?case
  proof (cases "n < 2")
    case True
    then show ?thesis using digit_char_bits [of n] by (simp add: FormatUint.simps [of n])
  next
    case False
    then show ?thesis
      using 1 digit_char_bits [of "n mod 2"]
      by (simp add: FormatUint.simps [of n] bin_val_append)
  qed
qed

lemma length_FormatUint_2: "n < 2 ^ k \<Longrightarrow> 0 < k \<Longrightarrow> length (FormatUint n 2) \<le> k"
proof (induction n "2::nat" arbitrary: k rule: FormatUint.induct)
  case (1 n)
  show ?case
  proof (cases "n < 2")
    case True
    then show ?thesis using 1 by (simp add: FormatUint.simps [of n])
  next
    case False
    then obtain k' where k: "k = Suc k'" "0 < k'"
      using "1.prems" by (cases k; cases "k - 1") auto
    then have "n div 2 < 2 ^ k'" using "1.prems" by auto
    then have "length (FormatUint (n div 2) 2) \<le> k'"
      using False k by (intro "1.hyps") auto
    then show ?thesis using False k by (simp add: FormatUint.simps [of n])
  qed
qed

lemma length_Sprintf_08b [simp]: "length (Sprintf_08b b) = 8"
proof -
  have "unat b < 2 ^ 8" using unsigned_less [of b, where ?'a = nat] by simp
  then have "length (FormatUint (unat b) 2) \<le> 8" by (rule length_FormatUint_2) simp
  then show ?thesis by (simp add: Sprintf_08b_def pad_left_def)
qed

lemma set_Sprintf_08b: "set (Sprintf_08b b) \<subseteq> {CHR ''0'', CHR ''1''}"
  using FormatUint_2_bits [of "unat b"] by (auto simp: Sprintf_08b_def pad_left_def)

lemma bin_val_zeros: "bin_val 0 (replicate k CHR ''0'') = 0"
  by (induction k) (simp_all add: bit_val_def)

lemma bin_val_Sprintf_08b [simp]: "bin_val 0 (Sprintf_08b b) = unat b"
  by (simp add: Sprintf_08b_def pad_left_def bin_val_append bin_val_zeros bin_val_FormatUint_2)

lemma ParseUint_Sprintf_08b: "ParseUint (Sprintf_08b b) 2 8 = (unat b, None)"
proof -
  have ne: "Sprintf_08b b \<noteq> []" using length_Sprintf_08b [of b] by (metis length_0_conv zero_neq_numeral)
  have "unat b \<le> 2 ^ 8 - 1" using unsigned_less [of b, where ?'a = nat] by simp
  then have "ParseUint_loop 2 (2 ^ 8 - 1) 0 (Sprintf_08b b) = (bin_val 0 (Sprintf_08b b), None)"
    by (intro ParseUint_loop_bits set_Sprintf_08b) simp_all
  then show ?thesis using ne by (simp add: ParseUint_def)
qed


lemma NewDataFromBytes_range_eq:
  "NewDataFromBytes_range data bits = bits @ concat (map Sprintf_08b data)"
  by (induction data arbitrary: bits) simp_all

lemma Bits_NewDataFromBytes: "Bits (NewDataFromBytes data) = concat (map Sprintf_08b data)"
  by (simp add: NewDataFromBytes_def NewDataFromBytes_range_eq)

lemma length_concat_Sprintf_08b [simp]: "length (concat (map Sprintf_08b data)) = 8 * length data"
  by (induction data) simp_all

lemma drop_concat_Sprintf_08b:
  "drop (8 * k) (concat (map Sprintf_08b data)) = concat (map Sprintf_08b (drop k data))"
proof (induction data arbitrary: k)
  case Nil
  then show ?case by simp
next
  case (Cons b data)
  show ?case
  proof (cases k)
    case 0
    then show ?thesis by simp
  next
    case (Suc k')
    then show ?thesis using Cons.IH [of k'] by simp
  qed
qed

lemma take_concat_Sprintf_08b:
  "take (8 * k) (concat (map Sprintf_08b data)) = concat (map Sprintf_08b (take k data))"
proof (induction data arbitrary: k)
  case Nil
  then show ?case by simp
next
  case (Cons b data)
  show ?case
  proof (cases k)
    case 0
    then show ?thesis by simp
  next
    case (Suc k')
    then show ?thesis using Cons.IH [of k'] by simp
  qed
qed

lemma slice_concat_Sprintf_08b:
  "lo \<le> hi \<Longrightarrow> hi \<le> length data \<Longrightarrow>
     slice_expr (concat (map Sprintf_08b data)) (8 * lo) (8 * hi)
       = Inr (concat (map Sprintf_08b (take (hi - lo) (drop lo data))))"
proof -
  assume a: "lo \<le> hi" "hi \<le> length data"
  have "8 * hi - 8 * lo = 8 * (hi - lo)" by simp
  then show ?thesis
    using a by (simp add: slice_expr_def drop_concat_Sprintf_08b take_concat_Sprintf_08b
      del: mult_Suc_right)
qed

lemma NewDataFromBits_loop_bytes:
  "k \<le> length data \<Longrightarrow> length bytes = length data \<Longrightarrow>
     NewDataFromBits_loop (concat (map Sprintf_08b data)) (8 * k) bytes
       = Inr (take k bytes @ drop k data)"
proof (induction "length data - k" arbitrary: k bytes)
  case 0
  then show ?case by (simp add: NewDataFromBits_loop.simps [of _ "8 * k"])
next
  case (Suc n)
  then have k: "k < length data" by simp
  have sl: "slice_expr (concat (map Sprintf_08b data)) (8 * k) (8 * k + 8) = Inr (Sprintf_08b (data ! k))"
    using slice_concat_Sprintf_08b [of k "Suc k" data] k
    by (simp add: take_Suc_conv_app_nth [of 0] Cons_nth_drop_Suc [symmetric] add.commute)
  have "NewDataFromBits_loop (concat (map Sprintf_08b data)) (8 * Suc k) (bytes[k := data ! k])
      = Inr (take (Suc k) (bytes[k := data ! k]) @ drop (Suc k) data)"
    using Suc k by (intro Suc.hyps(1)) simp_all
  moreover have "8 * Suc k = 8 * k + 8" by simp
  ultimately have rec: "NewDataFromBits_loop (concat (map Sprintf_08b data)) (8 * k + 8)
      (bytes[k := data ! k]) = Inr (take (Suc k) (bytes[k := data ! k]) @ drop (Suc k) data)"
    by metis
  have "take (Suc k) (bytes[k := data ! k]) @ drop (Suc k) data = take k bytes @ drop k data"
    using k Suc.prems by (simp add: take_Suc_conv_app_nth Cons_nth_drop_Suc)
  with rec sl k Suc.prems show ?case
    by (simp add: NewDataFromBits_loop.simps [of _ "8 * k"] ParseUint_Sprintf_08b)
qed

text \<open>
  C3. Bytes to bits and back: \<open>NewDataFromBits\<close> applied to the bit string that
  \<open>NewDataFromBytes\<close> derives from any byte sequence returns, without a panic, a
  \<open>Data\<close> whose bytes are the original ones; the bit string has eight characters for
  each byte (96 for the 12 bytes of a message).
\<close>

theorem Data_round_trip:
  "NewDataFromBits (Bits (NewDataFromBytes bs))
     = Inr \<lparr>Bits = Bits (NewDataFromBytes bs), Bytes = bs\<rparr>
   \<and> length (Bits (NewDataFromBytes bs)) = 8 * length bs"
proof -
  have "(8 * length bs + 7) div 8 = length bs" by simp
  then show ?thesis
    using NewDataFromBits_loop_bytes [of 0 bs "replicate (length bs) 0"]
    by (simp add: NewDataFromBits_def Bits_NewDataFromBytes)
qed

theorem Data_round_trip_witness:
  "length example_packet = 12
   \<and> Bits (NewDataFromBytes example_packet)
     = ''111110010101001100000010010111000000000000110000''
       @ ''001110010001001000110100010101101100100010111010''
   \<and> length (Bits (NewDataFromBytes example_packet)) = 96
   \<and> NewDataFromBits (Bits (NewDataFromBytes example_packet))
     = Inr \<lparr>Bits = Bits (NewDataFromBytes example_packet), Bytes = example_packet\<rparr>"
proof -
  have "Bits (NewDataFromBytes example_packet)
     = ''111110010101001100000010010111000000000000110000''
       @ ''001110010001001000110100010101101100100010111010''"
    by (simp add: example_packet_def NewDataFromBytes_def Sprintf_08b_def pad_left_def
        FormatUint.simps digit_char_def replicate_numeral_Cons)
  moreover have "length example_packet = 12" by (simp add: example_packet_def)
  ultimately show ?thesis using Data_round_trip [of example_packet] by simp
qed


lemma NewDataFromBits_loop_panics:
  "8 dvd idx \<Longrightarrow> idx \<le> length bits \<Longrightarrow> \<not> 8 dvd length bits \<Longrightarrow>
   length bytes = (length bits + 7) div 8 \<Longrightarrow>
     \<exists>lo. NewDataFromBits_loop bits idx bytes = Inl (SliceBoundsOutOfRange lo (lo + 8) (length bits))"
proof (induction bits idx bytes rule: NewDataFromBits_loop.induct)
  case (1 bits idx bytes)
  have lt: "idx < length bits" using "1.prems" by (cases "idx = length bits") auto
  show ?case
  proof (cases "idx + 8 \<le> length bits")
    case False
    then show ?thesis using lt by (simp add: NewDataFromBits_loop.simps [of bits idx] slice_expr_def)
  next
    case True
    have i: "idx div 8 < length bytes" using True "1.prems" by auto
    have sl: "slice_expr bits idx (idx + 8) = Inr (take 8 (drop idx bits))"
      using True by (simp add: slice_expr_def)
    have "\<exists>lo. NewDataFromBits_loop bits (idx + 8)
            (bytes[idx div 8 := of_nat (fst (ParseUint (take 8 (drop idx bits)) 2 8))])
          = Inl (SliceBoundsOutOfRange lo (lo + 8) (length bits))"
      by (rule "1.IH" [OF lt sl refl i]) (use True "1.prems" in simp_all)
    then show ?thesis using lt True i
      by (simp add: NewDataFromBits_loop.simps [of bits idx] slice_expr_def Let_def)
  qed
qed

lemma NewDataFromBits_panics:
  "\<not> 8 dvd length data \<Longrightarrow>
     \<exists>lo. NewDataFromBits data = Inl (SliceBoundsOutOfRange lo (lo + 8) (length data))"
  using NewDataFromBits_loop_panics [of 0 data "replicate ((length data + 7) div 8) 0"]
  by (auto simp: NewDataFromBits_def)

text \<open>
  C4. \<open>NewDataFromBits\<close> is not total: on the one-character bit string \<open>"1"\<close> the
  slice \<open>d.Bits[0:8]\<close> is out of range and the function panics, although it has
  allocated the one byte that the rounded-up length asks for.
\<close>

theorem NewDataFromBits_partial_byte_panics:
  "NewDataFromBits ''1'' = Inl (SliceBoundsOutOfRange 0 8 1)"
  by (simp add: NewDataFromBits_def NewDataFromBits_loop.simps slice_expr_def)


section \<open>Parse: properties\<close>

lemma ParseUint_bits:
  assumes "s \<noteq> []" "set s \<subseteq> {CHR ''0'', CHR ''1''}" "length s \<le> bitSize" "bitSize \<le> 64"
  shows "ParseUint s 2 bitSize = (bin_val 0 s, None)"
proof -
  have bound: "bin_val 0 t < 2 ^ length t" if "set t \<subseteq> {CHR ''0'', CHR ''1''}" for t
    using that
  proof (induction t rule: rev_induct)
    case Nil
    then show ?case by simp
  next
    case (snoc c t)
    then have "bin_val 0 t < 2 ^ length t" "bit_val c \<le> 1"
      by (auto simp: bit_val_def)
    then show ?case by (simp add: bin_val_append)
  qed
  have "bin_val 0 s < 2 ^ length s" using assms(2) by (rule bound)
  also have "(2::nat) ^ length s \<le> 2 ^ bitSize" using assms(3) by simp
  finally have le: "bin_val 0 s \<le> 2 ^ bitSize - 1" by simp
  have "(2::nat) ^ bitSize \<le> 2 ^ 64" using assms(4) by (intro power_increasing) simp_all
  then have "(2::nat) ^ bitSize - 1 < 2 ^ 64" by simp
  then have "ParseUint_loop 2 (2 ^ bitSize - 1) 0 s = (bin_val 0 s, None)"
    using assms(2) le by (intro ParseUint_loop_bits)
  then show ?thesis using assms(1) by (simp add: ParseUint_def)
qed

lemma NewSCM_returns: "96 \<le> length (Bits data) \<Longrightarrow> \<exists>scm. NewSCM data = Inr scm"
  by (simp add: NewSCM_def slice_expr_def)

lemma NewSCM_NewDataFromBytes_returns:
  "length pkt = 12 \<Longrightarrow> \<exists>scm. NewSCM (NewDataFromBytes pkt) = Inr scm"
  by (rule NewSCM_returns) (simp add: Bits_NewDataFromBytes)

lemma seen_at_update: "{s. seen_at (seen(pkt \<mapsto> True)) s} = insert pkt {s. seen_at seen s}"
  by (auto simp: seen_at_def)

lemma Parse_range_eq:
  "Parse_range p pkts seen msgs
     = Inr (msgs @ List.map_filter (accepted p) (keep_unseen {s. seen_at seen s} pkts))"
proof (induction pkts arbitrary: seen msgs)
  case Nil
  then show ?case by simp
next
  case (Cons pkt pkts)
  show ?case
  proof (cases "seen_at seen pkt")
    case True
    then show ?thesis using Cons.IH [of seen msgs] by simp
  next
    case unseen: False
    let ?seen = "seen(pkt \<mapsto> True)"
    let ?rest = "List.map_filter (accepted p) (keep_unseen (insert pkt {s. seen_at seen s}) pkts)"
    have IH: "Parse_range p pkts ?seen msgs' = Inr (msgs' @ ?rest)" for msgs'
      using Cons.IH [of ?seen msgs'] by (simp only: seen_at_update)
    have keep: "List.map_filter (accepted p) (keep_unseen {s. seen_at seen s} (pkt # pkts))
        = (case accepted p pkt of None \<Rightarrow> ?rest | Some m \<Rightarrow> m # ?rest)"
      using unseen by simp
    have B: "Bytes (NewDataFromBytes pkt) = pkt" by (simp add: NewDataFromBytes_def)
    show ?thesis
    proof (cases "length pkt = 12")
      case False
      then have "accepted p pkt = None" by (simp add: accepted_def)
      moreover have "Parse_range p (pkt # pkts) seen msgs = Parse_range p pkts ?seen msgs"
        using unseen False by (simp add: B Let_def)
      ultimately show ?thesis by (simp only: keep IH option.case)
    next
      case len: True
      then have sl: "slice_expr pkt 2 12 = Inr (take 10 (drop 2 pkt))"
        by (simp add: slice_expr_def)
      obtain scm where scm: "NewSCM (NewDataFromBytes pkt) = Inr scm"
        using NewSCM_NewDataFromBytes_returns [OF len] by blast
      show ?thesis
      proof (cases "CRC_Checksum p (take 10 (drop 2 pkt)) = 0 \<and> ID scm \<noteq> 0")
        case False
        then have "accepted p pkt = None" using scm by (auto simp: accepted_def)
        moreover have "Parse_range p (pkt # pkts) seen msgs = Parse_range p pkts ?seen msgs"
          using unseen len sl scm False by (auto simp: B Let_def)
        ultimately show ?thesis by (simp only: keep IH option.case)
      next
        case True
        then have "accepted p pkt = Some scm" using scm len by (simp add: accepted_def)
        moreover have "Parse_range p (pkt # pkts) seen msgs
            = Parse_range p pkts ?seen (msgs @ [scm])"
          using unseen len sl scm True by (simp add: B Let_def)
        ultimately show ?thesis by (simp only: keep IH option.case append_assoc append.simps)
      qed
    qed
  qed
qed

lemma Parse_eq:
  "Parse p indices
     = Inr (List.map_filter (accepted p) (first_occurrences (Decoder_Slice p indices)))"
  by (simp add: Parse_def Parse_range_eq first_occurrences_def seen_at_def)

lemma set_keep_unseen: "set (keep_unseen S xs) = set xs - S"
  by (induction xs arbitrary: S) auto

lemma distinct_keep_unseen: "distinct (keep_unseen S xs)"
  by (induction xs arbitrary: S) (auto simp: set_keep_unseen)

lemma map_filter_keep_unseen_insert:
  "f x = None \<Longrightarrow>
     List.map_filter f (keep_unseen (insert x S) xs) = List.map_filter f (keep_unseen S xs)"
proof (induction xs arbitrary: S)
  case Nil
  then show ?case by simp
next
  case (Cons y ys)
  show ?case
  proof (cases "y = x")
    case True
    then show ?thesis using Cons by simp
  next
    case False
    then show ?thesis
      using Cons.IH [OF Cons.prems, of S] Cons.IH [OF Cons.prems, of "insert y S"]
      by (simp add: insert_commute split: option.splits)
  qed
qed

lemma map_filter_keep_unseen_filter:
  "(\<And>x. \<not> P x \<Longrightarrow> f x = None) \<Longrightarrow>
     List.map_filter f (keep_unseen S (filter P xs)) = List.map_filter f (keep_unseen S xs)"
proof (induction xs arbitrary: S)
  case Nil
  then show ?case by simp
next
  case (Cons y ys)
  show ?case
  proof (cases "P y")
    case True
    then show ?thesis using Cons.IH [OF Cons.prems]
      by (simp split: option.splits)
  next
    case False
    then have "f y = None" by (rule Cons.prems)
    then show ?thesis
      using False Cons.IH [OF Cons.prems, of S] map_filter_keep_unseen_insert [of f y S ys]
      by simp
  qed
qed

lemma keep_unseen_replicate:
  "keep_unseen S (replicate n x) = (if x \<in> S \<or> n = 0 then [] else [x])"
proof (induction n arbitrary: S)
  case 0
  then show ?case by simp
next
  case (Suc n)
  show ?case using Suc [of S] Suc [of "insert x S"] by simp
qed

lemma accepted_SomeD:
  "accepted p pkt = Some m \<Longrightarrow>
     length pkt = 12 \<and> CRC_Checksum p (take 10 (drop 2 pkt)) = 0
     \<and> NewSCM (NewDataFromBytes pkt) = Inr m \<and> ID m \<noteq> 0"
  by (auto simp: accepted_def split: if_splits sum.splits)

lemma map_filter_memD: "m \<in> set (List.map_filter f xs) \<Longrightarrow> \<exists>x \<in> set xs. f x = Some m"
  by (auto simp: List.map_filter_def)


lemma ucast_drop_bit_8_big_endian:
  fixes a b :: byte and w :: "16 word"
  assumes "unat w = unat a * 256 + unat b"
  shows "(ucast (drop_bit 8 w) :: byte) = a"
proof -
  have a: "unat a < 256" and b: "unat b < 256"
    using unsigned_less [of a, where ?'a = nat] unsigned_less [of b, where ?'a = nat] by simp_all
  have "unat (drop_bit 8 w) = drop_bit 8 (unat w)" by (rule unat_drop_bit_eq)
  also have "\<dots> = unat a" using a b assms by (simp add: drop_bit_eq_div)
  finally have "unat (drop_bit 8 w) = unat a" .
  then have "unat (ucast (drop_bit 8 w) :: byte) = unat a"
    using a by (simp only: unsigned_ucast_eq take_bit_eq_mod) simp
  then show ?thesis by (simp only: word_unat_eq_iff)
qed
lemma ucast_big_endian:
  fixes a b :: byte and w :: "16 word"
  assumes "unat w = unat a * 256 + unat b"
  shows "(ucast w :: byte) = b"
proof -
  have a: "unat a < 256" and b: "unat b < 256"
    using unsigned_less [of a, where ?'a = nat] unsigned_less [of b, where ?'a = nat] by simp_all
  have "unat (ucast w :: byte) = unat b"
    using a b assms by (simp only: unsigned_ucast_eq take_bit_eq_mod) simp
  then show ?thesis by (simp only: word_unat_eq_iff)
qed

section \<open>Evaluation of the examples\<close>

lemmas eval_Data = NewSCM_def NewDataFromBytes_def Sprintf_08b_def pad_left_def FormatUint.simps
  digit_char_def slice_expr_def ParseUint_def digit_val_def replicate_numeral_Cons

lemma funpow_8: "(f ^^ 8) x = f (f (f (f (f (f (f (f x)))))))"
  by (simp add: numeral_eq_Suc)

lemma example_checksum:
  "BCH_Checksum [0x02, 0x5C, 0x00, 0x30, 0x39, 0x12, 0x34, 0x56, 0xC8, 0xBA] = 0"
  "BCH_Checksum [0x02, 0x5C, 0x00, 0x30, 0x39, 0x12, 0x34, 0x56, 0xC8, 0xBB] = 0x6F63"
  "BCH_Checksum [0, 0, 0, 0, 0, 0, 0, 0, 0, 0] = 0"
  by (simp_all add: BCH_Checksum_def BCH_byte_def BCH_shift_def funpow_8)

lemma example_NewSCM:
  "NewSCM (NewDataFromBytes example_packet)
     = Inr \<lparr>ID = 17970262, Type = 7, TamperPhy = 1, TamperEnc = 0, Consumption = 12345,
            ChecksumVal = 0xC8BA\<rparr>"
  by (simp add: example_packet_def eval_Data)

lemma example_NewSCM_zero:
  "NewSCM (NewDataFromBytes (replicate 12 0))
     = Inr \<lparr>ID = 0, Type = 0, TamperPhy = 0, TamperEnc = 0, Consumption = 0,
            ChecksumVal = 0\<rparr>"
  by (simp add: eval_Data)

lemma example_accepted:
  "accepted example_parser example_packet
     = Some \<lparr>ID = 17970262, Type = 7, TamperPhy = 1, TamperEnc = 0, Consumption = 12345,
            ChecksumVal = 0xC8BA\<rparr>"
  "accepted example_parser (example_packet[11 := 0xBB]) = None"
  "accepted example_parser (replicate 12 0) = None"
  "accepted example_parser (take 11 example_packet) = None"
  using example_NewSCM example_NewSCM_zero
  by (simp_all add: accepted_def example_parser_def scm_NewParser_def example_packet_def
      example_checksum replicate_numeral_Cons)

section \<open>Parse: the length, checksum and meter ID checks\<close>

text \<open>
  C1. \<open>Parse\<close> always returns a message sequence and never an error. Every message
  it returns is decoded from a packet of the slicer that is 12 bytes long and whose
  bytes 2 to 12 have checksum zero; and the packets that fail either test contribute
  nothing: removing them from the slicer's output leaves the result unchanged.
\<close>

theorem Parse_length_checksum_check:
  "\<exists>msgs. Parse p indices = Inr msgs
     \<and> (\<forall>m \<in> set msgs. \<exists>pkt \<in> set (Decoder_Slice p indices).
            length pkt = 12 \<and> CRC_Checksum p (take 10 (drop 2 pkt)) = 0
            \<and> NewSCM (NewDataFromBytes pkt) = Inr m)
     \<and> Parse (p\<lparr>Decoder_Slice :=
            \<lambda>i. filter (\<lambda>pkt. length pkt = 12 \<and> CRC_Checksum p (take 10 (drop 2 pkt)) = 0)
                  (Decoder_Slice p i)\<rparr>) indices = Inr msgs"
proof -
  define ok where "ok = (\<lambda>pkt. length pkt = 12 \<and> CRC_Checksum p (take 10 (drop 2 pkt)) = 0)"
  define q where "q = p\<lparr>Decoder_Slice := \<lambda>i. filter ok (Decoder_Slice p i)\<rparr>"
  let ?msgs = "List.map_filter (accepted p) (first_occurrences (Decoder_Slice p indices))"
  have origin: "\<exists>pkt \<in> set (Decoder_Slice p indices). ok pkt \<and> NewSCM (NewDataFromBytes pkt) = Inr m"
    if mem: "m \<in> set ?msgs" for m
  proof -
    obtain pkt where "pkt \<in> set (first_occurrences (Decoder_Slice p indices))"
      and "accepted p pkt = Some m"
      using map_filter_memD [OF mem] by blast
    then show ?thesis
      using accepted_SomeD [of p pkt m] by (auto simp: first_occurrences_def set_keep_unseen ok_def)
  qed
  have acc: "accepted q = accepted p" by (simp add: accepted_def fun_eq_iff q_def)
  have rej: "accepted p x = None" if "\<not> ok x" for x
    using that unfolding accepted_def ok_def by (rule if_not_P)
  have "List.map_filter (accepted p) (keep_unseen {} (filter ok (Decoder_Slice p indices)))
      = List.map_filter (accepted p) (keep_unseen {} (Decoder_Slice p indices))"
    by (rule map_filter_keep_unseen_filter) (rule rej)
  moreover have "Decoder_Slice q indices = filter ok (Decoder_Slice p indices)"
    by (simp add: q_def)
  ultimately have "Parse q indices = Inr ?msgs"
    by (simp only: Parse_eq first_occurrences_def acc)
  with origin have "\<exists>msgs. Parse p indices = Inr msgs
     \<and> (\<forall>m \<in> set msgs. \<exists>pkt \<in> set (Decoder_Slice p indices). ok pkt
            \<and> NewSCM (NewDataFromBytes pkt) = Inr m)
     \<and> Parse q indices = Inr msgs"
    by (simp add: Parse_eq)
  then show ?thesis unfolding q_def ok_def by simp
qed

theorem Parse_length_checksum_check_witness:
  "Decoder_Slice example_parser [0, 2, 6]
     = [example_packet, example_packet[11 := 0xBB], take 11 example_packet]
   \<and> CRC_Checksum example_parser (take 10 (drop 2 (example_packet[11 := 0xBB]))) \<noteq> 0
   \<and> length (take 11 example_packet) \<noteq> 12
   \<and> (\<exists>m. Parse example_parser [0, 2, 6] = Inr [m]
          \<and> NewSCM (NewDataFromBytes example_packet) = Inr m
          \<and> length example_packet = 12
          \<and> CRC_Checksum example_parser (take 10 (drop 2 example_packet)) = 0)"
proof -
  have sl: "Decoder_Slice example_parser [0, 2, 6]
      = [example_packet, example_packet[11 := 0xBB], take 11 example_packet]"
    by (simp add: example_parser_def scm_NewParser_def example_slicer_def)
  have crc: "CRC_Checksum example_parser (take 10 (drop 2 (example_packet[11 := 0xBB]))) \<noteq> 0"
    "CRC_Checksum example_parser (take 10 (drop 2 example_packet)) = 0"
    by (simp_all add: example_parser_def scm_NewParser_def example_packet_def example_checksum)
  have len: "length (take 11 example_packet) \<noteq> 12" "length example_packet = 12"
    by (simp_all add: example_packet_def)
  have ne: "example_packet \<noteq> example_packet[11 := 0xBB]" "example_packet \<noteq> take 11 example_packet"
    "example_packet[11 := 0xBB] \<noteq> take 11 example_packet"
    by (simp_all add: example_packet_def)
  have P: "Parse example_parser [0, 2, 6]
      = Inr [\<lparr>ID = 17970262, Type = 7, TamperPhy = 1, TamperEnc = 0, Consumption = 12345,
            ChecksumVal = 0xC8BA\<rparr>]"
    using ne by (simp add: Parse_eq sl first_occurrences_def example_accepted)
  from Parse_length_checksum_check [of example_parser "[0, 2, 6]"] sl crc len P example_NewSCM
  show ?thesis by simp
qed

text \<open>
  C7. No message that \<open>Parse\<close> returns has the meter ID 0, whatever the length and
  the checksum of its packet.
\<close>

theorem Parse_drops_meter_id_zero:
  "\<exists>msgs. Parse p indices = Inr msgs \<and> (\<forall>m \<in> set msgs. ID m \<noteq> 0)"
proof -
  have "ID m \<noteq> 0"
    if "m \<in> set (List.map_filter (accepted p) (first_occurrences (Decoder_Slice p indices)))" for m
    using map_filter_memD [OF that] accepted_SomeD [of p _ m] by blast
  then show ?thesis by (simp add: Parse_eq)
qed

theorem Parse_drops_meter_id_zero_witness:
  "Decoder_Slice example_parser [4, 0] = [replicate 12 0, example_packet]
   \<and> CRC_Checksum example_parser (take 10 (drop 2 (replicate 12 0))) = 0
   \<and> (\<exists>m. NewSCM (NewDataFromBytes (replicate 12 0)) = Inr m \<and> ID m = 0)
   \<and> (\<exists>m. Parse example_parser [4, 0] = Inr [m]
          \<and> NewSCM (NewDataFromBytes example_packet) = Inr m \<and> ID m \<noteq> 0)"
proof -
  have sl: "Decoder_Slice example_parser [4, 0] = [replicate 12 0, example_packet]"
    by (simp add: example_parser_def scm_NewParser_def example_slicer_def)
  have crc: "CRC_Checksum example_parser (take 10 (drop 2 (replicate 12 0))) = 0"
    by (simp add: example_parser_def scm_NewParser_def example_checksum replicate_numeral_Cons)
  have ne: "replicate 12 0 \<noteq> example_packet"
    by (simp add: example_packet_def replicate_numeral_Cons)
  have P: "Parse example_parser [4, 0]
      = Inr [\<lparr>ID = 17970262, Type = 7, TamperPhy = 1, TamperEnc = 0, Consumption = 12345,
            ChecksumVal = 0xC8BA\<rparr>]"
    using ne by (simp add: Parse_eq sl first_occurrences_def example_accepted)
  from Parse_drops_meter_id_zero [of example_parser "[4, 0]"] sl crc P example_NewSCM
    example_NewSCM_zero
  show ?thesis by simp
qed


section \<open>Parse: deduplication\<close>

text \<open>
  C2 as stated fails: the same byte sequence at two distinct offsets does not always
  give exactly one message. The example slicer returns the same packet of eleven
  bytes at the offsets 6 and 7, and \<open>Parse\<close> returns no message for it, whatever the
  checksum is.
\<close>

theorem Parse_same_packet_twice_no_message:
  "Decoder_Slice example_parser [6, 7] = [take 11 example_packet, take 11 example_packet]
   \<and> Parse example_parser [6, 7] = Inr []"
proof -
  have sl: "Decoder_Slice example_parser [6, 7]
      = [take 11 example_packet, take 11 example_packet]"
    by (simp add: example_parser_def scm_NewParser_def example_slicer_def)
  have "length (take 11 example_packet) \<noteq> 12" by (simp add: example_packet_def)
  then show ?thesis
    by (simp add: sl Parse_def seen_at_def NewDataFromBytes_def)
qed

text \<open>
  C2, as amended. Within one call, \<open>Parse\<close> looks at each distinct byte sequence of
  the slicer once, at its first occurrence, and returns at most one message for it:
  exactly one when the packet passes the length, checksum and meter-ID checks, none
  otherwise; so a packet that the slicer returns at several offsets gives the result of
  that packet alone. The set of packets seen belongs to the call: the result depends
  only on the checksum and on what the slicer returns to this call, so a packet seen by
  an earlier call is decoded again.
\<close>

theorem Parse_one_message_per_accepted_packet:
  "Parse p indices
     = Inr (List.map_filter (accepted p) (first_occurrences (Decoder_Slice p indices)))
   \<and> distinct (first_occurrences (Decoder_Slice p indices))
   \<and> set (first_occurrences (Decoder_Slice p indices)) = set (Decoder_Slice p indices)
   \<and> (Decoder_Slice p indices = replicate (Suc n) pkt \<longrightarrow>
        Parse p indices = Inr (case accepted p pkt of None \<Rightarrow> [] | Some m \<Rightarrow> [m]))
   \<and> (CRC_Checksum q = CRC_Checksum p \<and> Decoder_Slice q indices' = Decoder_Slice p indices \<longrightarrow>
        Parse q indices' = Parse p indices)"
proof -
  have "Parse p indices = Inr (case accepted p pkt of None \<Rightarrow> [] | Some m \<Rightarrow> [m])"
    if "Decoder_Slice p indices = replicate (Suc n) pkt"
    using that keep_unseen_replicate [of "{}" "Suc n" pkt]
    by (simp add: Parse_eq first_occurrences_def split: option.splits)
  moreover have "Parse q indices' = Parse p indices"
    if "CRC_Checksum q = CRC_Checksum p" "Decoder_Slice q indices' = Decoder_Slice p indices"
  proof -
    have "accepted q = accepted p" using that(1) by (simp add: accepted_def fun_eq_iff)
    then show ?thesis using that(2) by (simp add: Parse_eq)
  qed
  ultimately show ?thesis
    by (simp add: Parse_eq first_occurrences_def distinct_keep_unseen set_keep_unseen)
qed

theorem Parse_one_message_per_accepted_packet_witness:
  "Decoder_Slice example_parser [0, 1] = replicate 2 example_packet
   \<and> Decoder_Slice example_parser [0] = Decoder_Slice example_parser [1]
   \<and> (\<exists>m. accepted example_parser example_packet = Some m
          \<and> Parse example_parser [0, 1] = Inr [m]
          \<and> Parse example_parser [0] = Inr [m]
          \<and> Parse example_parser [1] = Inr [m])
   \<and> Decoder_Slice example_parser [2, 3] = replicate 2 (example_packet[11 := 0xBB])
   \<and> accepted example_parser (example_packet[11 := 0xBB]) = None
   \<and> Parse example_parser [2, 3] = Inr []"
proof -
  have sl: "Decoder_Slice example_parser [0, 1] = replicate (Suc 1) example_packet"
    "Decoder_Slice example_parser [0] = replicate (Suc 0) example_packet"
    "Decoder_Slice example_parser [1] = Decoder_Slice example_parser [0]"
    "Decoder_Slice example_parser [2, 3] = replicate (Suc 1) (example_packet[11 := 0xBB])"
    by (simp_all add: example_parser_def scm_NewParser_def example_slicer_def)
  have one: "Parse example_parser [0] = Inr [m]" "Parse example_parser [1] = Inr [m]"
    if "accepted example_parser example_packet = Some m" for m
    using Parse_one_message_per_accepted_packet
      [of example_parser "[0]" 0 example_packet example_parser "[1]"] sl(2,3) that
    by (simp_all add: first_occurrences_def)
  have two: "Parse example_parser [0, 1] = Inr [m]"
    if "accepted example_parser example_packet = Some m" for m
    using Parse_one_message_per_accepted_packet
      [of example_parser "[0, 1]" 1 example_packet example_parser "[0, 1]"] sl(1) that
    by (simp add: first_occurrences_def)
  have none: "Parse example_parser [2, 3] = Inr []"
    using Parse_one_message_per_accepted_packet
      [of example_parser "[2, 3]" 1 "example_packet[11 := 0xBB]" example_parser "[2, 3]"]
      sl(4) example_accepted(2)
    by (simp add: first_occurrences_def)
  show ?thesis
    using sl one two none example_accepted(1,2) by (simp add: numeral_2_eq_2)
qed

section \<open>NewSCM reached from Parse\<close>

lemma Sprintf_08b_nonempty [simp]: "Sprintf_08b b \<noteq> []"
  using length_Sprintf_08b [of b] by (metis length_0_conv zero_neq_numeral)

lemma NewSCM_ChecksumVal:
  assumes len: "length pkt = 12"
  shows "\<exists>scm. NewSCM (NewDataFromBytes pkt) = Inr scm
           \<and> unat (ChecksumVal scm) = bin_val 0 (take 16 (drop 80 (Bits (NewDataFromBytes pkt))))
           \<and> unat (ChecksumVal scm) = unat (pkt ! 10) * 256 + unat (pkt ! 11)"
proof -
  let ?bits = "Bits (NewDataFromBytes pkt)"
  let ?cs = "take 16 (drop 80 ?bits)"
  have lb: "length ?bits = 96" using len by (simp add: Bits_NewDataFromBytes)
  have "take 2 (drop 10 pkt) = [pkt ! 10, pkt ! 11]"
    using len by (simp add: take_Suc_conv_app_nth numeral_2_eq_2 Cons_nth_drop_Suc [symmetric])
  then have "slice_expr ?bits (8 * 10) (8 * 12) = Inr (Sprintf_08b (pkt ! 10) @ Sprintf_08b (pkt ! 11))"
    using slice_concat_Sprintf_08b [of 10 12 pkt] len by (simp add: Bits_NewDataFromBytes)
  then have cs: "?cs = Sprintf_08b (pkt ! 10) @ Sprintf_08b (pkt ! 11)"
    using lb by (simp add: slice_expr_def)
  have "ParseUint ?cs 2 16 = (bin_val 0 ?cs, None)"
    unfolding cs using set_Sprintf_08b [of "pkt ! 10"] set_Sprintf_08b [of "pkt ! 11"]
    by (intro ParseUint_bits) auto
  moreover have v: "bin_val 0 ?cs = unat (pkt ! 10) * 256 + unat (pkt ! 11)"
    unfolding cs using bin_val_acc [of "unat (pkt ! 10)" "Sprintf_08b (pkt ! 11)"]
    by (simp add: bin_val_append)
  moreover have "unat (pkt ! 10) < 256" "unat (pkt ! 11) < 256"
    using unsigned_less [of "pkt ! 10", where ?'a = nat]
      unsigned_less [of "pkt ! 11", where ?'a = nat] by simp_all
  then have "unat (pkt ! 10) * 256 + unat (pkt ! 11) < 2 ^ LENGTH(16)" by simp
  then have "unat (of_nat (unat (pkt ! 10) * 256 + unat (pkt ! 11)) :: 16 word)
      = unat (pkt ! 10) * 256 + unat (pkt ! 11)"
    by (rule of_nat_inverse [OF refl])
  moreover have "\<exists>scm. NewSCM (NewDataFromBytes pkt) = Inr scm
      \<and> ChecksumVal scm = of_nat (fst (ParseUint ?cs 2 16))"
    using lb by (simp add: NewSCM_def slice_expr_def Let_def)
  ultimately show ?thesis by (simp only: fst_conv) metis
qed

lemma Parse_range_calls_eq:
  "Parse_range_calls p pkts seen msgs calls
     = (calls @ map NewDataFromBytes
          (filter (\<lambda>pkt. length pkt = 12 \<and> CRC_Checksum p (take 10 (drop 2 pkt)) = 0)
             (keep_unseen {s. seen_at seen s} pkts)),
        Parse_range p pkts seen msgs)"
proof -
  define ok where "ok = (\<lambda>pkt. length pkt = 12 \<and> CRC_Checksum p (take 10 (drop 2 pkt)) = 0)"
  have "Parse_range_calls p pkts seen msgs calls
     = (calls @ map NewDataFromBytes (filter ok (keep_unseen {s. seen_at seen s} pkts)),
        Parse_range p pkts seen msgs)"
  proof (induction pkts arbitrary: seen msgs calls)
    case Nil
    then show ?case by simp
  next
    case (Cons pkt pkts)
    show ?case
    proof (cases "seen_at seen pkt")
      case True
      then show ?thesis using Cons.IH [of seen msgs calls] by simp
    next
      case unseen: False
      let ?seen = "seen(pkt \<mapsto> True)"
      let ?rest = "map NewDataFromBytes (filter ok (keep_unseen (insert pkt {s. seen_at seen s}) pkts))"
      have IH: "Parse_range_calls p pkts ?seen msgs' calls'
          = (calls' @ ?rest, Parse_range p pkts ?seen msgs')" for msgs' calls'
        using Cons.IH [of ?seen msgs' calls'] by (simp only: seen_at_update)
      have keep: "map NewDataFromBytes (filter ok (keep_unseen {s. seen_at seen s} (pkt # pkts)))
          = (if ok pkt then NewDataFromBytes pkt # ?rest else ?rest)"
        using unseen by simp
      have B: "Bytes (NewDataFromBytes pkt) = pkt" by (simp add: NewDataFromBytes_def)
      show ?thesis
      proof (cases "length pkt = 12")
        case False
        then have "\<not> ok pkt" by (simp add: ok_def)
        moreover have "Parse_range_calls p (pkt # pkts) seen msgs calls
            = Parse_range_calls p pkts ?seen msgs calls"
          using unseen False by (simp add: B Let_def)
        moreover have "Parse_range p (pkt # pkts) seen msgs = Parse_range p pkts ?seen msgs"
          using unseen False by (simp add: B Let_def)
        ultimately show ?thesis by (simp only: keep IH if_False)
      next
        case len: True
        then have sl: "slice_expr pkt 2 12 = Inr (take 10 (drop 2 pkt))"
          by (simp add: slice_expr_def)
        obtain scm where scm: "NewSCM (NewDataFromBytes pkt) = Inr scm"
          using NewSCM_NewDataFromBytes_returns [OF len] by blast
        show ?thesis
        proof (cases "CRC_Checksum p (take 10 (drop 2 pkt)) = 0")
          case False
          then have "\<not> ok pkt" by (simp add: ok_def)
          moreover have "Parse_range_calls p (pkt # pkts) seen msgs calls
              = Parse_range_calls p pkts ?seen msgs calls"
            using unseen len sl False by (simp add: B Let_def)
          moreover have "Parse_range p (pkt # pkts) seen msgs = Parse_range p pkts ?seen msgs"
            using unseen len sl False by (simp add: B Let_def)
          ultimately show ?thesis by (simp only: keep IH if_False)
        next
          case crc: True
          then have ok: "ok pkt" using len by (simp add: ok_def)
          show ?thesis
          proof (cases "ID scm = 0")
            case True
            have "Parse_range_calls p (pkt # pkts) seen msgs calls
                = Parse_range_calls p pkts ?seen msgs (calls @ [NewDataFromBytes pkt])"
              using unseen len sl scm crc True by (simp add: B Let_def)
            moreover have "Parse_range p (pkt # pkts) seen msgs = Parse_range p pkts ?seen msgs"
              using unseen len sl scm crc True by (simp add: B Let_def)
            ultimately show ?thesis using ok by (simp only: keep IH if_True append_assoc append.simps)
          next
            case False
            have "Parse_range_calls p (pkt # pkts) seen msgs calls
                = Parse_range_calls p pkts ?seen (msgs @ [scm]) (calls @ [NewDataFromBytes pkt])"
              using unseen len sl scm crc False by (simp add: B Let_def)
            moreover have "Parse_range p (pkt # pkts) seen msgs
                = Parse_range p pkts ?seen (msgs @ [scm])"
              using unseen len sl scm crc False by (simp add: B Let_def)
            ultimately show ?thesis using ok by (simp only: keep IH if_True append_assoc append.simps)
          qed
        qed
      qed
    qed
  qed
  then show ?thesis unfolding ok_def .
qed

lemma Parse_calls_eq:
  "Parse_calls p indices
     = (map NewDataFromBytes
          (filter (\<lambda>pkt. length pkt = 12 \<and> CRC_Checksum p (take 10 (drop 2 pkt)) = 0)
             (first_occurrences (Decoder_Slice p indices))),
        Parse p indices)"
  by (simp add: Parse_calls_def Parse_def Parse_range_calls_eq first_occurrences_def seen_at_def)

lemma NewSCM_Checksum_bytes:
  assumes len: "length pkt = 12"
  shows "\<exists>scm. NewSCM (NewDataFromBytes pkt) = Inr scm
           \<and> unat (ChecksumVal scm) = bin_val 0 (take 16 (drop 80 (Bits (NewDataFromBytes pkt))))
           \<and> Checksum scm = [pkt ! 10, pkt ! 11]"
proof -
  obtain scm where scm: "NewSCM (NewDataFromBytes pkt) = Inr scm"
    "unat (ChecksumVal scm) = bin_val 0 (take 16 (drop 80 (Bits (NewDataFromBytes pkt))))"
    "unat (ChecksumVal scm) = unat (pkt ! 10) * 256 + unat (pkt ! 11)"
    using NewSCM_ChecksumVal [OF len] by blast
  have "Checksum scm = [pkt ! 10, pkt ! 11]"
    using ucast_drop_bit_8_big_endian [OF scm(3)] ucast_big_endian [OF scm(3)]
    by (simp add: Checksum_def numeral_2_eq_2)
  with scm show ?thesis by blast
qed

text \<open>
  C10. \<open>Parse\<close> calls \<open>NewSCM\<close> on exactly the \<open>Data\<close> of the packets, each at its first
  occurrence, that are 12 bytes long and have checksum zero: every \<open>Data\<close> it passes to
  \<open>NewSCM\<close> has 12 bytes and, the bit string of \<open>NewDataFromBytes\<close> having eight
  characters for each byte, 96 bits. On these every slice of \<open>NewSCM\<close> is in bounds and
  \<open>NewSCM\<close> returns a message; its \<open>ChecksumVal\<close> is the integer value of the bits 80
  to 96, and \<open>Checksum\<close> returns it as the two bytes 10 and 11 of the packet, most
  significant first. \<open>Parse\<close> never panics, whatever the slicer returns.
\<close>

theorem NewSCM_in_bounds_after_length_check:
  "length (Bits (NewDataFromBytes pkt)) = 8 * length pkt
   \<and> (length pkt = 12 \<longrightarrow>
        (\<exists>scm. NewSCM (NewDataFromBytes pkt) = Inr scm
           \<and> unat (ChecksumVal scm) = bin_val 0 (take 16 (drop 80 (Bits (NewDataFromBytes pkt))))
           \<and> Checksum scm = [pkt ! 10, pkt ! 11]))
   \<and> (\<exists>msgs. Parse p indices = Inr msgs)
   \<and> snd (Parse_calls p indices) = Parse p indices
   \<and> fst (Parse_calls p indices)
       = map NewDataFromBytes
           (filter (\<lambda>pkt. length pkt = 12 \<and> CRC_Checksum p (take 10 (drop 2 pkt)) = 0)
              (first_occurrences (Decoder_Slice p indices)))
   \<and> (\<forall>data \<in> set (fst (Parse_calls p indices)).
         length (Bytes data) = 12 \<and> length (Bits data) = 96
         \<and> (\<exists>scm. NewSCM data = Inr scm
               \<and> unat (ChecksumVal scm) = bin_val 0 (take 16 (drop 80 (Bits data)))
               \<and> Checksum scm = [Bytes data ! 10, Bytes data ! 11]))"
proof -
  have A: "length (Bits (NewDataFromBytes pkt)) = 8 * length pkt"
    by (simp add: Bits_NewDataFromBytes)
  have B: "length pkt = 12 \<longrightarrow>
        (\<exists>scm. NewSCM (NewDataFromBytes pkt) = Inr scm
           \<and> unat (ChecksumVal scm) = bin_val 0 (take 16 (drop 80 (Bits (NewDataFromBytes pkt))))
           \<and> Checksum scm = [pkt ! 10, pkt ! 11])"
    using NewSCM_Checksum_bytes [of pkt] by blast
  have C: "\<exists>msgs. Parse p indices = Inr msgs" by (simp add: Parse_eq)
  have D: "snd (Parse_calls p indices) = Parse p indices" by (simp add: Parse_calls_eq)
  have E: "fst (Parse_calls p indices)
       = map NewDataFromBytes
           (filter (\<lambda>pkt. length pkt = 12 \<and> CRC_Checksum p (take 10 (drop 2 pkt)) = 0)
              (first_occurrences (Decoder_Slice p indices)))"
    by (simp add: Parse_calls_eq)
  have F: "\<forall>data \<in> set (fst (Parse_calls p indices)).
         length (Bytes data) = 12 \<and> length (Bits data) = 96
         \<and> (\<exists>scm. NewSCM data = Inr scm
               \<and> unat (ChecksumVal scm) = bin_val 0 (take 16 (drop 80 (Bits data)))
               \<and> Checksum scm = [Bytes data ! 10, Bytes data ! 11])"
  proof
    fix data
    assume "data \<in> set (fst (Parse_calls p indices))"
    then obtain pkt' where d: "data = NewDataFromBytes pkt'" and len: "length pkt' = 12"
      unfolding E by auto
    have "Bytes data = pkt'" by (simp add: d NewDataFromBytes_def)
    moreover have "length (Bits data) = 96" by (simp add: d Bits_NewDataFromBytes len)
    ultimately show "length (Bytes data) = 12 \<and> length (Bits data) = 96
         \<and> (\<exists>scm. NewSCM data = Inr scm
               \<and> unat (ChecksumVal scm) = bin_val 0 (take 16 (drop 80 (Bits data)))
               \<and> Checksum scm = [Bytes data ! 10, Bytes data ! 11])"
      using NewSCM_Checksum_bytes [OF len] len by (simp add: d)
  qed
  show ?thesis
    by (intro conjI) (rule A B C D E F)+
qed


theorem NewSCM_in_bounds_after_length_check_witness:
  "length example_packet = 12
   \<and> length (Bits (NewDataFromBytes example_packet)) = 96
   \<and> (\<exists>scm. NewSCM (NewDataFromBytes example_packet) = Inr scm
         \<and> unat (ChecksumVal scm) = 0xC8BA \<and> Checksum scm = [0xC8, 0xBA])
   \<and> Decoder_Slice example_parser [7, 0] = [take 11 example_packet, example_packet]
   \<and> NewSCM (NewDataFromBytes (take 11 example_packet)) = Inl (SliceBoundsOutOfRange 80 96 88)
   \<and> (\<exists>msgs. Parse example_parser [7, 0] = Inr msgs)
   \<and> Decoder_Slice example_parser [7, 0, 4, 2]
       = [take 11 example_packet, example_packet, replicate 12 0, example_packet[11 := 0xBB]]
   \<and> fst (Parse_calls example_parser [7, 0, 4, 2])
       = [NewDataFromBytes example_packet, NewDataFromBytes (replicate 12 0)]
   \<and> snd (Parse_calls example_parser [7, 0, 4, 2]) = Parse example_parser [7, 0, 4, 2]"
proof -
  have sl: "Decoder_Slice example_parser [7, 0] = [take 11 example_packet, example_packet]"
    "Decoder_Slice example_parser [7, 0, 4, 2]
       = [take 11 example_packet, example_packet, replicate 12 0, example_packet[11 := 0xBB]]"
    by (simp_all add: example_parser_def scm_NewParser_def example_slicer_def)
  have short: "NewSCM (NewDataFromBytes (take 11 example_packet))
      = Inl (SliceBoundsOutOfRange 80 96 88)"
    by (simp add: example_packet_def eval_Data)
  have len: "length example_packet = 12" by (simp add: example_packet_def)
  have nth: "example_packet ! 10 = 0xC8" "example_packet ! 11 = 0xBA"
    by (simp_all add: example_packet_def)
  have first: "first_occurrences
        [take 11 example_packet, example_packet, replicate 12 0, example_packet[11 := 0xBB]]
      = [take 11 example_packet, example_packet, replicate 12 0, example_packet[11 := 0xBB]]"
    by (simp add: first_occurrences_def example_packet_def replicate_numeral_Cons)
  define ok where "ok = (\<lambda>pkt. length pkt = 12
      \<and> CRC_Checksum example_parser (take 10 (drop 2 pkt)) = 0)"
  have ok: "\<not> ok (take 11 example_packet)" "ok example_packet" "ok (replicate 12 0)"
    "\<not> ok (example_packet[11 := 0xBB])"
    by (simp_all add: ok_def example_parser_def scm_NewParser_def example_packet_def
        example_checksum replicate_numeral_Cons)
  note T = NewSCM_in_bounds_after_length_check
  have calls: "fst (Parse_calls example_parser [7, 0, 4, 2])
       = [NewDataFromBytes example_packet, NewDataFromBytes (replicate 12 0)]"
    using T [of example_packet example_parser "[7, 0, 4, 2]", THEN conjunct2, THEN conjunct2,
        THEN conjunct2, THEN conjunct2, THEN conjunct1, folded ok_def]
    by (simp add: sl first ok)
  have res: "snd (Parse_calls example_parser [7, 0, 4, 2]) = Parse example_parser [7, 0, 4, 2]"
    using T [of example_packet example_parser "[7, 0, 4, 2]"] by blast
  have old: "\<exists>scm. NewSCM (NewDataFromBytes example_packet) = Inr scm
         \<and> unat (ChecksumVal scm) = 0xC8BA \<and> Checksum scm = [0xC8, 0xBA]"
    using T [of example_packet example_parser "[7, 0]", THEN conjunct2, THEN conjunct1]
      len nth example_NewSCM
    by simp
  have tot: "\<exists>msgs. Parse example_parser [7, 0] = Inr msgs"
    using T [of example_packet example_parser "[7, 0]"] by blast
  have bits: "length (Bits (NewDataFromBytes example_packet)) = 96"
    using T [of example_packet example_parser "[7, 0]", THEN conjunct1] len by simp
  show ?thesis
    by (intro conjI) (rule len bits old sl short tot calls res)+
qed

section \<open>Formatting of messages\<close>

lemmas eval_fmt = pad_left_def FormatUint.simps digit_char_def to_upper_def replicate_numeral_Cons

lemma example_Sprintf_SCM:
  "Sprintf_SCM example_SCM
     = ''{ID:17970262 Type: 7 Tamper:{Phy:01 Enc:00} Consumption:   12345 CRC:0xC8BA}''"
  by (simp add: Sprintf_SCM_def example_SCM_def eval_fmt)

text \<open>
  C5 as stated fails for \<open>String\<close>: in a world where every call succeeds it reads two
  files, prints the certificate, connects to the broker, publishes the text and
  disconnects before it returns the text; in a world without the key pair the same
  call on the same message panics.
\<close>

theorem String_acts_on_the_world:
  "fst (String example_World example_SCM)
     = [ReadFile ''rootCA.pem'',
        LoadX509KeyPair ''rtlsdr.certificate.crt'' ''rtlsdr.private.key'',
        Println_Leaf,
        MQTT_Connect ''ssl://data.iot.us-west-2.amazonaws.com:8883'' ''rtlsdr'',
        MQTT_Publish ''/rtlsdr'' 0 False
          ''{ID:17970262 Type: 7 Tamper:{Phy:01 Enc:00} Consumption:   12345 CRC:0xC8BA}'',
        MQTT_Disconnect 250]
   \<and> snd (String example_World example_SCM)
     = Inr ''{ID:17970262 Type: 7 Tamper:{Phy:01 Enc:00} Consumption:   12345 CRC:0xC8BA}''
   \<and> snd (String example_World_no_key example_SCM)
     = Inl (Panic ''open rtlsdr.certificate.crt: no such file or directory'')"
  by (simp add: String_def NewTLSConfig_def example_World_def example_World_no_key_def
      example_Sprintf_SCM)

lemma snd_String_Inr_iff:
  "snd (String w scm) = Inr s \<longleftrightarrow>
     s = Sprintf_SCM scm \<and> LoadX509KeyPair_err w = None \<and> ParseCertificate_err w = None
     \<and> Connect_err w = None"
  by (auto simp: String_def NewTLSConfig_def Let_def split: option.splits)

text \<open>
  C5, as amended. \<open>Record\<close> is a function of the six fields and of nothing else.
  \<open>String\<close> is not free of effects. It reads \<open>rootCA.pem\<close> and loads the key pair; when
  the key pair does not load or its certificate does not parse it panics there.
  Otherwise it prints the certificate and connects to the broker; when the connection
  fails it panics there. Otherwise it publishes the formatted fields to the topic
  \<open>/rtlsdr\<close>, disconnects and returns the same text, which depends on the fields only.
  These are all its effects, in this order.
\<close>

theorem String_returns_the_formatted_fields:
  "(snd (String w scm) = Inr s \<longrightarrow>
      s = Sprintf_SCM scm \<and> MQTT_Publish ''/rtlsdr'' 0 False s \<in> set (fst (String w scm)))
   \<and> ((\<exists>s. snd (String w scm) = Inr s) \<longleftrightarrow>
        LoadX509KeyPair_err w = None \<and> ParseCertificate_err w = None \<and> Connect_err w = None)
   \<and> ReadFile ''rootCA.pem'' \<in> set (fst (String w scm))
   \<and> LoadX509KeyPair ''rtlsdr.certificate.crt'' ''rtlsdr.private.key'' \<in> set (fst (String w scm))
   \<and> String w scm
       = (case LoadX509KeyPair_err w of
            Some err \<Rightarrow>
              ([ReadFile ''rootCA.pem'',
                LoadX509KeyPair ''rtlsdr.certificate.crt'' ''rtlsdr.private.key''],
               Inl (Panic err))
          | None \<Rightarrow>
              (case ParseCertificate_err w of
                 Some err \<Rightarrow>
                   ([ReadFile ''rootCA.pem'',
                     LoadX509KeyPair ''rtlsdr.certificate.crt'' ''rtlsdr.private.key''],
                    Inl (Panic err))
               | None \<Rightarrow>
                   (case Connect_err w of
                      Some err \<Rightarrow>
                        ([ReadFile ''rootCA.pem'',
                          LoadX509KeyPair ''rtlsdr.certificate.crt'' ''rtlsdr.private.key'',
                          Println_Leaf,
                          MQTT_Connect ''ssl://data.iot.us-west-2.amazonaws.com:8883'' ''rtlsdr''],
                         Inl (Panic err))
                    | None \<Rightarrow>
                        ([ReadFile ''rootCA.pem'',
                          LoadX509KeyPair ''rtlsdr.certificate.crt'' ''rtlsdr.private.key'',
                          Println_Leaf,
                          MQTT_Connect ''ssl://data.iot.us-west-2.amazonaws.com:8883'' ''rtlsdr'',
                          MQTT_Publish ''/rtlsdr'' 0 False (Sprintf_SCM scm),
                          MQTT_Disconnect 250],
                         Inr (Sprintf_SCM scm)))))
   \<and> Record scm
       = [FormatUint (unat (ID scm)) 10, FormatUint (unat (Type scm)) 10,
          ''0x'' @ FormatUint (unat (TamperPhy scm)) 16,
          ''0x'' @ FormatUint (unat (TamperEnc scm)) 16,
          FormatUint (unat (Consumption scm)) 10,
          ''0x'' @ FormatUint (unat (ChecksumVal scm)) 16]"
proof -
  have A: "snd (String w scm) = Inr s \<longrightarrow>
      s = Sprintf_SCM scm \<and> MQTT_Publish ''/rtlsdr'' 0 False s \<in> set (fst (String w scm))"
    by (auto simp: String_def NewTLSConfig_def Let_def split: option.splits)
  have B: "(\<exists>s. snd (String w scm) = Inr s) \<longleftrightarrow>
        LoadX509KeyPair_err w = None \<and> ParseCertificate_err w = None \<and> Connect_err w = None"
    by (simp add: snd_String_Inr_iff)
  have C: "ReadFile ''rootCA.pem'' \<in> set (fst (String w scm))"
    by (auto simp: String_def NewTLSConfig_def Let_def split: option.splits)
  have D: "LoadX509KeyPair ''rtlsdr.certificate.crt'' ''rtlsdr.private.key'' \<in> set (fst (String w scm))"
    by (auto simp: String_def NewTLSConfig_def Let_def split: option.splits)
  have E: "String w scm
       = (case LoadX509KeyPair_err w of
            Some err \<Rightarrow>
              ([ReadFile ''rootCA.pem'',
                LoadX509KeyPair ''rtlsdr.certificate.crt'' ''rtlsdr.private.key''],
               Inl (Panic err))
          | None \<Rightarrow>
              (case ParseCertificate_err w of
                 Some err \<Rightarrow>
                   ([ReadFile ''rootCA.pem'',
                     LoadX509KeyPair ''rtlsdr.certificate.crt'' ''rtlsdr.private.key''],
                    Inl (Panic err))
               | None \<Rightarrow>
                   (case Connect_err w of
                      Some err \<Rightarrow>
                        ([ReadFile ''rootCA.pem'',
                          LoadX509KeyPair ''rtlsdr.certificate.crt'' ''rtlsdr.private.key'',
                          Println_Leaf,
                          MQTT_Connect ''ssl://data.iot.us-west-2.amazonaws.com:8883'' ''rtlsdr''],
                         Inl (Panic err))
                    | None \<Rightarrow>
                        ([ReadFile ''rootCA.pem'',
                          LoadX509KeyPair ''rtlsdr.certificate.crt'' ''rtlsdr.private.key'',
                          Println_Leaf,
                          MQTT_Connect ''ssl://data.iot.us-west-2.amazonaws.com:8883'' ''rtlsdr'',
                          MQTT_Publish ''/rtlsdr'' 0 False (Sprintf_SCM scm),
                          MQTT_Disconnect 250],
                         Inr (Sprintf_SCM scm)))))"
    by (simp add: String_def NewTLSConfig_def Let_def split: option.splits)
  have F: "Record scm
       = [FormatUint (unat (ID scm)) 10, FormatUint (unat (Type scm)) 10,
          ''0x'' @ FormatUint (unat (TamperPhy scm)) 16,
          ''0x'' @ FormatUint (unat (TamperEnc scm)) 16,
          FormatUint (unat (Consumption scm)) 10,
          ''0x'' @ FormatUint (unat (ChecksumVal scm)) 16]"
    by (simp add: Record_def)
  show ?thesis
    by (intro conjI) (rule A B C D E F)+
qed

theorem String_returns_the_formatted_fields_witness:
  "String example_World example_SCM
     = ([ReadFile ''rootCA.pem'',
         LoadX509KeyPair ''rtlsdr.certificate.crt'' ''rtlsdr.private.key'',
         Println_Leaf,
         MQTT_Connect ''ssl://data.iot.us-west-2.amazonaws.com:8883'' ''rtlsdr'',
         MQTT_Publish ''/rtlsdr'' 0 False
           ''{ID:17970262 Type: 7 Tamper:{Phy:01 Enc:00} Consumption:   12345 CRC:0xC8BA}'',
         MQTT_Disconnect 250],
        Inr ''{ID:17970262 Type: 7 Tamper:{Phy:01 Enc:00} Consumption:   12345 CRC:0xC8BA}'')
   \<and> String (example_World\<lparr>Connect_err := Some ''network Error''\<rparr>) example_SCM
     = ([ReadFile ''rootCA.pem'',
         LoadX509KeyPair ''rtlsdr.certificate.crt'' ''rtlsdr.private.key'',
         Println_Leaf,
         MQTT_Connect ''ssl://data.iot.us-west-2.amazonaws.com:8883'' ''rtlsdr''],
        Inl (Panic ''network Error''))
   \<and> String (example_World\<lparr>ParseCertificate_err := Some ''x509: malformed certificate''\<rparr>)
        example_SCM
     = ([ReadFile ''rootCA.pem'',
         LoadX509KeyPair ''rtlsdr.certificate.crt'' ''rtlsdr.private.key''],
        Inl (Panic ''x509: malformed certificate''))
   \<and> String example_World_no_key example_SCM
     = ([ReadFile ''rootCA.pem'',
         LoadX509KeyPair ''rtlsdr.certificate.crt'' ''rtlsdr.private.key''],
        Inl (Panic ''open rtlsdr.certificate.crt: no such file or directory''))
   \<and> MQTT_Publish ''/rtlsdr'' 0 False
        ''{ID:17970262 Type: 7 Tamper:{Phy:01 Enc:00} Consumption:   12345 CRC:0xC8BA}''
       \<in> set (fst (String example_World example_SCM))
   \<and> LoadX509KeyPair_err example_World = None \<and> ParseCertificate_err example_World = None
   \<and> Connect_err example_World = None
   \<and> Record example_SCM = [''17970262'', ''7'', ''0x1'', ''0x0'', ''12345'', ''0xc8ba'']"
proof -
  have w: "LoadX509KeyPair_err example_World = None" "ParseCertificate_err example_World = None"
    "Connect_err example_World = None"
    by (simp_all add: example_World_def)
  have f: "FormatUint (unat (ID example_SCM)) 10 = ''17970262''"
    "FormatUint (unat (Type example_SCM)) 10 = ''7''"
    "FormatUint (unat (TamperPhy example_SCM)) 16 = ''1''"
    "FormatUint (unat (TamperEnc example_SCM)) 16 = ''0''"
    "FormatUint (unat (Consumption example_SCM)) 10 = ''12345''"
    "FormatUint (unat (ChecksumVal example_SCM)) 16 = ''c8ba''"
    by (simp_all add: example_SCM_def eval_fmt)
  note T = String_returns_the_formatted_fields [where scm = example_SCM]
  have ok: "String example_World example_SCM
     = ([ReadFile ''rootCA.pem'',
         LoadX509KeyPair ''rtlsdr.certificate.crt'' ''rtlsdr.private.key'',
         Println_Leaf,
         MQTT_Connect ''ssl://data.iot.us-west-2.amazonaws.com:8883'' ''rtlsdr'',
         MQTT_Publish ''/rtlsdr'' 0 False (Sprintf_SCM example_SCM),
         MQTT_Disconnect 250],
        Inr (Sprintf_SCM example_SCM))"
    using T [of example_World "Sprintf_SCM example_SCM", THEN conjunct2, THEN conjunct2,
        THEN conjunct2, THEN conjunct2, THEN conjunct1]
    by (simp add: w)
  have conn: "String (example_World\<lparr>Connect_err := Some ''network Error''\<rparr>) example_SCM
     = ([ReadFile ''rootCA.pem'',
         LoadX509KeyPair ''rtlsdr.certificate.crt'' ''rtlsdr.private.key'',
         Println_Leaf,
         MQTT_Connect ''ssl://data.iot.us-west-2.amazonaws.com:8883'' ''rtlsdr''],
        Inl (Panic ''network Error''))"
    using T [of "example_World\<lparr>Connect_err := Some ''network Error''\<rparr>"
        "Sprintf_SCM example_SCM", THEN conjunct2, THEN conjunct2,
        THEN conjunct2, THEN conjunct2, THEN conjunct1]
    by (simp add: w)
  have cert: "String (example_World\<lparr>ParseCertificate_err := Some ''x509: malformed certificate''\<rparr>)
        example_SCM
     = ([ReadFile ''rootCA.pem'',
         LoadX509KeyPair ''rtlsdr.certificate.crt'' ''rtlsdr.private.key''],
        Inl (Panic ''x509: malformed certificate''))"
    using T [of "example_World\<lparr>ParseCertificate_err := Some ''x509: malformed certificate''\<rparr>"
        "Sprintf_SCM example_SCM", THEN conjunct2, THEN conjunct2,
        THEN conjunct2, THEN conjunct2, THEN conjunct1]
    by (simp add: w)
  have key: "String example_World_no_key example_SCM
     = ([ReadFile ''rootCA.pem'',
         LoadX509KeyPair ''rtlsdr.certificate.crt'' ''rtlsdr.private.key''],
        Inl (Panic ''open rtlsdr.certificate.crt: no such file or directory''))"
    using T [of example_World_no_key
        "Sprintf_SCM example_SCM", THEN conjunct2, THEN conjunct2,
        THEN conjunct2, THEN conjunct2, THEN conjunct1]
    by (simp add: example_World_no_key_def)
  have rec: "Record example_SCM = [''17970262'', ''7'', ''0x1'', ''0x0'', ''12345'', ''0xc8ba'']"
    using T [of example_World "Sprintf_SCM example_SCM"] f by simp
  show ?thesis
    using ok conn cert key rec w by (simp add: example_Sprintf_SCM)
qed

section \<open>LogMessage: properties\<close>

lemma length_FormatUint:
  "2 \<le> base \<Longrightarrow> n < base ^ k \<Longrightarrow> 0 < k \<Longrightarrow>
     0 < length (FormatUint n base) \<and> length (FormatUint n base) \<le> k"
proof (induction n base arbitrary: k rule: FormatUint.induct)
  case (1 n base)
  show ?case
  proof (cases "n < base")
    case True
    then show ?thesis using 1 by (simp add: FormatUint.simps [of n])
  next
    case False
    then obtain k' where k: "k = Suc k'" "0 < k'"
      using "1.prems" by (cases k; cases "k - 1") auto
    then have "n < base ^ k' * base" using "1.prems" by (simp add: mult.commute)
    then have "n div base < base ^ k'"
      using "1.prems"(1) by (simp add: less_mult_imp_div_less)
    then have "length (FormatUint (n div base) base) \<le> k'"
      using False k "1.prems"(1) "1.IH" [of k'] by auto
    then show ?thesis using False k "1.prems"(1) by (simp add: FormatUint.simps [of n])
  qed
qed

lemma FormatFloat_f_decimals:
  "0 < prec \<Longrightarrow> \<exists>ip fp. FormatFloat_f x prec = (if x < 0 then ''-'' else []) @ ip @ CHR ''.'' # fp
     \<and> ip \<noteq> [] \<and> length fp = prec"
proof -
  assume prec: "0 < prec"
  define n where "n = nat (round_half_even (\<bar>x\<bar> * 10 ^ prec))"
  have "n mod 10 ^ prec < 10 ^ prec" by simp
  then have "length (FormatUint (n mod 10 ^ prec) 10) \<le> prec"
    using length_FormatUint [of 10 "n mod 10 ^ prec" prec] prec by simp
  then have "length (pad_left CHR ''0'' prec (FormatUint (n mod 10 ^ prec) 10)) = prec"
    by (simp add: pad_left_def)
  moreover have "FormatUint (n div 10 ^ prec) 10 \<noteq> []"
    by (simp add: FormatUint.simps [of "n div 10 ^ prec"])
  ultimately show ?thesis
    using prec unfolding FormatFloat_f_def Let_def n_def [symmetric] by auto
qed

lemma round_half_even_QuantNoise8bit: "round_half_even (\<bar>QuantNoise8bit\<bar> * 10 ^ 3) = 48165"
  by (simp add: round_half_even_def QuantNoise8bit_def Let_def)

lemma RSSI_String_QuantNoise8bit: "RSSI_String (Finite QuantNoise8bit) = ''-48.165''"
proof -
  have "FormatFloat_f QuantNoise8bit 3 = ''-48.165''"
    unfolding FormatFloat_f_def round_half_even_QuantNoise8bit
    by (simp add: QuantNoise8bit_def eval_fmt)
  then show ?thesis by (simp add: RSSI_String_def FormatFloat_def)
qed

text \<open>
  C9 as stated fails: \<open>Record\<close> prints the signal strength it is given, and for a
  reading of negative infinity that has not been sanitised the fourth field is
  \<open>-Inf\<close>. The value that \<open>Sanitize\<close> puts in its place is negative, so it is not
  \<open>20 * log10(2^8)\<close> either, which is positive.
\<close>

theorem Record_does_not_sanitize:
  "RSSI example_LogMessage = NegInf
   \<and> LogMessage_Record example_Format Record example_LogMessage
     = [''2006-01-02T15:04:05.999999999Z07:00'', ''4096'', ''12'', ''-Inf'',
        ''17970262'', ''7'', ''0x1'', ''0x0'', ''12345'', ''0xc8ba'']
   \<and> Sanitize NegInf \<noteq> Finite (20 * log 10 (2 ^ 8))"
proof -
  have "QuantNoise8bit < 0" by (simp add: QuantNoise8bit_def)
  moreover have "(0::real) < log 10 256" by simp
  ultimately have "QuantNoise8bit \<noteq> 20 * log 10 256" by linarith
  then have "Sanitize NegInf \<noteq> Finite (20 * log 10 (2 ^ 8))"
    by (simp add: Sanitize_def IsInf_def)
  then show ?thesis
    by (simp add: LogMessage_Record_def example_LogMessage_def example_Format_def
        RFC3339Nano_def FormatInt_def RSSI_String_def FormatFloat_def Record_def example_SCM_def
        eval_fmt)
qed

text \<open>
  C9, as amended. \<open>Record\<close> gives, in this order, the time in the layout
  \<open>RFC3339Nano\<close>, the offset, the length, the signal strength as \<open>RSSI.String\<close> prints
  it (three digits after the point for a finite value, \<open>-Inf\<close> for negative infinity)
  and then the fields of the message's own \<open>Record\<close>. The replacement of negative
  infinity is the separate operation \<open>Sanitize\<close>: it gives the constant
  \<open>QuantNoise8bit\<close>, printed as \<open>-48.165\<close>, and leaves every other value as it is.
\<close>

theorem LogMessage_Record_fields:
  "LogMessage_Record Format Message_Record msg
     = [Format (Time msg) RFC3339Nano, FormatInt (Offset msg) 10, FormatInt (Length msg) 10,
        RSSI_String (RSSI msg)] @ Message_Record (Message msg)
   \<and> RSSI_String NegInf = ''-Inf''
   \<and> (\<exists>ip fp. RSSI_String (Finite x) = (if x < 0 then ''-'' else []) @ ip @ CHR ''.'' # fp
         \<and> ip \<noteq> [] \<and> length fp = 3)
   \<and> Sanitize NegInf = Finite QuantNoise8bit
   \<and> (rssi \<noteq> NegInf \<longrightarrow> Sanitize rssi = rssi)
   \<and> RSSI_String (Sanitize NegInf) = ''-48.165''"
proof -
  have "Sanitize NegInf = Finite QuantNoise8bit" by (simp add: Sanitize_def IsInf_def)
  moreover have "Sanitize rssi = rssi" if "rssi \<noteq> NegInf"
    using that by (simp add: Sanitize_def IsInf_def)
  moreover have "\<exists>ip fp. RSSI_String (Finite x) = (if x < 0 then ''-'' else []) @ ip @ CHR ''.'' # fp
         \<and> ip \<noteq> [] \<and> length fp = 3"
    using FormatFloat_f_decimals [of 3 x] by (simp add: RSSI_String_def FormatFloat_def)
  ultimately show ?thesis
    by (simp add: LogMessage_Record_def RSSI_String_QuantNoise8bit)
      (simp add: RSSI_String_def FormatFloat_def)
qed

theorem LogMessage_Record_fields_witness:
  "LogMessage_Record example_Format Record (example_LogMessage\<lparr>RSSI := Sanitize NegInf\<rparr>)
     = [''2006-01-02T15:04:05.999999999Z07:00'', ''4096'', ''12'', ''-48.165'',
        ''17970262'', ''7'', ''0x1'', ''0x0'', ''12345'', ''0xc8ba'']
   \<and> Finite (1 / 16) \<noteq> NegInf
   \<and> Sanitize (Finite (1 / 16)) = Finite (1 / 16)
   \<and> RSSI_String (Finite (1 / 16)) = ''0.062''"
proof -
  let ?msg = "example_LogMessage\<lparr>RSSI := Sanitize NegInf\<rparr>"
  have fields: "example_Format (Time ?msg) RFC3339Nano = ''2006-01-02T15:04:05.999999999Z07:00''"
    "FormatInt (Offset ?msg) 10 = ''4096''"
    "FormatInt (Length ?msg) 10 = ''12''"
    "RSSI ?msg = Sanitize NegInf"
    "Record (Message ?msg) = [''17970262'', ''7'', ''0x1'', ''0x0'', ''12345'', ''0xc8ba'']"
    by (simp_all add: example_LogMessage_def example_Format_def RFC3339Nano_def FormatInt_def
        Record_def example_SCM_def eval_fmt)
  have "round_half_even (\<bar>1 / 16\<bar> * 10 ^ 3) = 62"
    by (simp add: round_half_even_def Let_def)
  then have "FormatFloat_f (1 / 16) 3 = ''0.062''"
    unfolding FormatFloat_f_def by (simp add: eval_fmt)
  then have s: "RSSI_String (Finite (1 / 16)) = ''0.062''"
    by (simp add: RSSI_String_def FormatFloat_def)
  note T = LogMessage_Record_fields [of example_Format Record ?msg "1 / 16" "Finite (1 / 16)"]
  from T have rec: "LogMessage_Record example_Format Record ?msg
      = [example_Format (Time ?msg) RFC3339Nano, FormatInt (Offset ?msg) 10,
         FormatInt (Length ?msg) 10, RSSI_String (RSSI ?msg)] @ Record (Message ?msg)"
    by (rule conjunct1)
  from T have str: "RSSI_String (Sanitize NegInf) = ''-48.165''"
    and san: "Sanitize (Finite (1 / 16)) = Finite (1 / 16)"
    by blast+
  have "LogMessage_Record example_Format Record ?msg
     = [''2006-01-02T15:04:05.999999999Z07:00'', ''4096'', ''12'', ''-48.165'',
        ''17970262'', ''7'', ''0x1'', ''0x0'', ''12345'', ''0xc8ba'']"
    unfolding rec fields str by simp
  then show ?thesis using s san by simp
qed


end
